theory Spec2Isabelle
  imports Complex_Main "HOL-Library.Word" "HOL-Library.Sublist" "HOL-Library.Log_Nat"
begin

section \<open>JavaScript values\<close>

text \<open>
  The server is one TypeScript file, \<^verbatim>\<open>src/pinterest-mcp-server.ts\<close>. Its handlers work on
  untyped values that arrive as JSON, so the model starts from the values of the language.

  A JavaScript string is a sequence of 16-bit code units. A literal of the source is written
  \<open>js ''...''\<close>.
\<close>

type_synonym char16 = "16 word"
type_synonym jsstring = "char16 list"

definition cu :: "char \<Rightarrow> char16" where
  "cu c = of_nat (of_char c)"

definition js :: "string \<Rightarrow> jsstring" where
  "js = map cu"

text \<open>
  A number is an IEEE double: not-a-number, the two infinities, or a finite value, kept as the
  rational it denotes. The two zeros are not told apart; nothing in the source reads the sign of
  a zero.
\<close>

datatype jsnum = NaN | PosInf | NegInf | Fin rat

text \<open>
  An object is the list of its own properties; the first entry for a key is the one that
  counts.
\<close>

datatype jsval =
    Undefined
  | Null
  | Bool bool
  | Num jsnum
  | Str jsstring
  | Arr "jsval list"
  | Obj "(jsstring \<times> jsval) list"

subsection \<open>Character classes\<close>

definition is_digit :: "char16 \<Rightarrow> bool" where
  "is_digit c = (0x30 \<le> c \<and> c \<le> 0x39)"

text \<open>The class \<^verbatim>\<open>\w\<close>: letters, digits and the underscore.\<close>

definition is_word :: "char16 \<Rightarrow> bool" where
  "is_word c = ((0x41 \<le> c \<and> c \<le> 0x5A) \<or> (0x61 \<le> c \<and> c \<le> 0x7A) \<or> is_digit c \<or> c = 0x5F)"

text \<open>
  White space and line terminators of ECMAScript: what \<^verbatim>\<open>trim\<close> strips, what \<^verbatim>\<open>parseInt\<close> skips
  and what \<^verbatim>\<open>\s\<close> matches.
\<close>

definition is_space :: "char16 \<Rightarrow> bool" where
  "is_space c = (c \<in> {0x09, 0x0A, 0x0B, 0x0C, 0x0D, 0x20, 0xA0, 0x1680, 0x2028, 0x2029,
                       0x202F, 0x205F, 0x3000, 0xFEFF} \<or> (0x2000 \<le> c \<and> c \<le> 0x200A))"

definition is_quote :: "char16 \<Rightarrow> bool" where
  "is_quote c = (c = cu CHR 0x22 \<or> c = cu CHR 0x60 \<or> c = cu CHR 0x27)"

definition ascii_upper :: "char16 \<Rightarrow> char16" where
  "ascii_upper c = (if 0x61 \<le> c \<and> c \<le> 0x7A then c - 0x20 else c)"

text \<open>
  A letter of a pattern under the flag \<^verbatim>\<open>i\<close> (and without the flag \<^verbatim>\<open>u\<close>): the only code units
  that match an ASCII letter are its two cases.
\<close>

definition eq_ci :: "char \<Rightarrow> char16 \<Rightarrow> bool" where
  "eq_ci p c = (ascii_upper c = ascii_upper (cu p))"

definition is_ch :: "char \<Rightarrow> char16 \<Rightarrow> bool" where
  "is_ch p c = (c = cu p)"

subsection \<open>String operations\<close>

definition trim :: "jsstring \<Rightarrow> jsstring" where
  "trim s = rev (dropWhile is_space (rev (dropWhile is_space s)))"

text \<open>\<^verbatim>\<open>s.includes(p)\<close>: \<open>p\<close> occurs in \<open>s\<close> as a run of consecutive code units.\<close>

definition includes_str :: "jsstring \<Rightarrow> jsstring \<Rightarrow> bool" where
  "includes_str s p = sublist p s"

fun join :: "jsstring \<Rightarrow> jsstring list \<Rightarrow> jsstring" where
  "join sep [] = []"
| "join sep [x] = x"
| "join sep (x # y # ys) = x @ sep @ join sep (y # ys)"

text \<open>
  The decimal digits of an integer that is not negative, as a template literal prints a count.
\<close>

function digits_of :: "int \<Rightarrow> jsstring" where
  "digits_of n = (if n < 10 then [0x30 + of_int n]
                  else digits_of (n div 10) @ [0x30 + of_int (n mod 10)])"
  by pat_completeness auto
termination
  by (relation "measure nat") auto

declare digits_of.simps [simp del]

section \<open>Regular expressions\<close>

text \<open>
  Every regular expression of the source is a sequence of quantified character classes, some
  of them inside a capture group. \<open>rmatch\<close> is the backtracking matcher of ECMAScript on such a
  sequence: a greedy quantifier takes the longest run first and gives back one code unit at a
  time while the rest of the pattern fails.
\<close>

datatype quant = Once | Opt | Star | Plus

datatype ritem =
    Item "char16 \<Rightarrow> bool" quant
  | Group "char16 \<Rightarrow> bool" quant

fun at_least :: "quant \<Rightarrow> nat" where
  "at_least Once = 1"
| "at_least Opt = 0"
| "at_least Star = 0"
| "at_least Plus = 1"

fun at_most :: "quant \<Rightarrow> nat \<Rightarrow> nat" where
  "at_most Once n = min 1 n"
| "at_most Opt n = min 1 n"
| "at_most Star n = n"
| "at_most Plus n = n"

text \<open>\<open>greedy lo k f\<close> tries the counts \<open>k\<close>, \<open>k - 1\<close>, ... down to \<open>lo\<close> and keeps the first success.\<close>

fun greedy :: "nat \<Rightarrow> nat \<Rightarrow> (nat \<Rightarrow> 'a option) \<Rightarrow> 'a option" where
  "greedy lo 0 f = (if lo = 0 then f 0 else None)"
| "greedy lo (Suc k) f =
     (if Suc k < lo then None
      else (case f (Suc k) of Some r \<Rightarrow> Some r | None \<Rightarrow> greedy lo k f))"

definition run :: "(char16 \<Rightarrow> bool) \<Rightarrow> jsstring \<Rightarrow> nat" where
  "run p s = length (takeWhile p s)"

text \<open>A match at the start of \<open>s\<close>: the captured texts in order, and what follows the match.\<close>

fun rmatch :: "ritem list \<Rightarrow> jsstring \<Rightarrow> (jsstring list \<times> jsstring) option" where
  "rmatch [] s = Some ([], s)"
| "rmatch (Item p q # its) s =
     greedy (at_least q) (at_most q (run p s)) (\<lambda>k. rmatch its (drop k s))"
| "rmatch (Group p q # its) s =
     greedy (at_least q) (at_most q (run p s))
       (\<lambda>k. map_option (\<lambda>(caps, rest). (take k s # caps, rest)) (rmatch its (drop k s)))"

text \<open>
  The leftmost match, as \<^verbatim>\<open>String.prototype.match\<close> and \<^verbatim>\<open>replace\<close> find it: the text before the
  match, the captures, the text after it.
\<close>

fun rsearch :: "ritem list \<Rightarrow> jsstring \<Rightarrow> (jsstring \<times> jsstring list \<times> jsstring) option" where
  "rsearch its [] = map_option (\<lambda>(caps, rest). ([], caps, rest)) (rmatch its [])"
| "rsearch its (c # cs) =
     (case rmatch its (c # cs) of
        Some (caps, rest) \<Rightarrow> Some ([], caps, rest)
      | None \<Rightarrow> map_option (\<lambda>(pre, caps, rest). (c # pre, caps, rest)) (rsearch its cs))"

text \<open>\<^verbatim>\<open>s.replace(re, ...)\<close> for a pattern without the flag \<^verbatim>\<open>g\<close>: the first match only.\<close>

definition replace_first :: "ritem list \<Rightarrow> (jsstring list \<Rightarrow> jsstring) \<Rightarrow> jsstring \<Rightarrow> jsstring" where
  "replace_first its repl s =
     (case rsearch its s of
        None \<Rightarrow> s
      | Some (pre, caps, rest) \<Rightarrow> pre @ repl caps @ rest)"

lemma greedy_Some: "greedy lo k f = Some r \<Longrightarrow> \<exists>j. lo \<le> j \<and> j \<le> k \<and> f j = Some r"
proof (induction k)
  case 0
  then show ?case by (auto split: if_splits)
next
  case (Suc k)
  show ?case
  proof (cases "f (Suc k)")
    case None
    with Suc.prems have "greedy lo k f = Some r" by (auto split: if_splits)
    from Suc.IH [OF this] show ?thesis by (meson le_Suc_eq)
  next
    case (Some a)
    with Suc.prems show ?thesis by (auto split: if_splits simp: not_less)
  qed
qed

lemma rmatch_length: "rmatch its s = Some (caps, rest) \<Longrightarrow> length rest \<le> length s"
proof (induction its arbitrary: s caps rest)
  case Nil
  then show ?case by simp
next
  case (Cons it its)
  show ?case
  proof (cases it)
    case (Item p q)
    with Cons.prems obtain j where "rmatch its (drop j s) = Some (caps, rest)"
      by (auto dest: greedy_Some)
    from Cons.IH [OF this] show ?thesis by simp
  next
    case (Group p q)
    with Cons.prems obtain j where
      "map_option (\<lambda>(caps, rest). (take j s # caps, rest)) (rmatch its (drop j s)) = Some (caps, rest)"
      by (auto dest: greedy_Some)
    then obtain caps' where "rmatch its (drop j s) = Some (caps', rest)" by auto
    from Cons.IH [OF this] show ?thesis by simp
  qed
qed

lemma rsearch_length:
  "rsearch its s = Some (pre, caps, rest) \<Longrightarrow> length pre + length rest \<le> length s"
proof (induction s arbitrary: pre caps rest)
  case Nil
  then show ?case by (auto dest: rmatch_length)
next
  case (Cons c cs)
  show ?case
  proof (cases "rmatch its (c # cs)")
    case None
    with Cons.prems obtain pre' where
      "rsearch its cs = Some (pre', caps, rest)" and "pre = c # pre'" by auto
    with Cons.IH show ?thesis by fastforce
  next
    case (Some a)
    with Cons.prems have "rmatch its (c # cs) = Some (caps, rest)" and "pre = []"
      by (auto split: prod.splits)
    then show ?thesis by (auto dest: rmatch_length)
  qed
qed

text \<open>
  \<^verbatim>\<open>s.replace(re, ...)\<close> for a pattern with the flag \<^verbatim>\<open>g\<close>: every match, each search starting
  where the previous match ended (one code unit further after an empty match).
\<close>

function replace_all :: "ritem list \<Rightarrow> (jsstring list \<Rightarrow> jsstring) \<Rightarrow> jsstring \<Rightarrow> jsstring" where
  "replace_all its repl s =
     (case rsearch its s of
        None \<Rightarrow> s
      | Some (pre, caps, rest) \<Rightarrow>
          if length pre + length rest < length s then pre @ repl caps @ replace_all its repl rest
          else (case rest of
                  [] \<Rightarrow> pre @ repl caps
                | c # cs \<Rightarrow> pre @ repl caps @ c # replace_all its repl cs))"
  by pat_completeness auto
termination
  by (relation "measure (\<lambda>(its, repl, s). length s)") (auto dest: rsearch_length)

declare replace_all.simps [simp del]

section \<open>Numbers and conversions\<close>

definition pow2 :: "int \<Rightarrow> rat" where
  "pow2 e = (if 0 \<le> e then 2 ^ nat e else 1 / 2 ^ nat (- e))"

definition pow10 :: "int \<Rightarrow> rat" where
  "pow10 e = (if 0 \<le> e then 10 ^ nat e else 1 / 10 ^ nat (- e))"

text \<open>The exponent \<open>e\<close> with \<open>2 ^ e \<le> a < 2 ^ (e + 1)\<close>, for a positive \<open>a\<close>.\<close>

definition binade :: "rat \<Rightarrow> int" where
  "binade a =
     (let (p, q) = quotient_of a;
          e = bitlen p - bitlen q
      in if pow2 e \<le> a then e else e - 1)"

definition round_half_even :: "rat \<Rightarrow> int" where
  "round_half_even x =
     (let f = \<lfloor>x\<rfloor>; d = x - of_int f
      in if d < 1 / 2 then f
         else if 1 / 2 < d then f + 1
         else if even f then f else f + 1)"

text \<open>
  The double nearest to a rational, ties to even: 53 significant bits, exponents from -1022
  (below that the spacing stays \<open>2 ^ -1074\<close>), and an infinity from \<open>2 ^ 1024\<close> on. This is how
  \<^verbatim>\<open>JSON.parse\<close> reads a number and how \<^verbatim>\<open>parseInt\<close> returns its integer.
\<close>

definition to_double :: "rat \<Rightarrow> jsnum" where
  "to_double x =
     (if x = 0 then Fin 0
      else let a = \<bar>x\<bar>;
               e = max (binade a) (- 1022);
               ulp = pow2 (e - 52);
               v = of_int (round_half_even (a / ulp)) * ulp
           in if pow2 1024 \<le> v then (if 0 < x then PosInf else NegInf)
              else Fin (if 0 < x then v else - v))"

definition isNaN :: "jsnum \<Rightarrow> bool" where
  "isNaN x = (x = NaN)"

text \<open>The comparison \<^verbatim>\<open>x <= 0\<close> of two numbers; it is false for not-a-number.\<close>

definition le_zero :: "jsnum \<Rightarrow> bool" where
  "le_zero x = (case x of NaN \<Rightarrow> False | PosInf \<Rightarrow> False | NegInf \<Rightarrow> True | Fin q \<Rightarrow> q \<le> 0)"

text \<open>The value of a code unit as a digit in a radix up to 36; 36 when it is none.\<close>

definition digit_value :: "char16 \<Rightarrow> nat" where
  "digit_value c =
     (if is_digit c then unat c - 0x30
      else if 0x61 \<le> c \<and> c \<le> 0x7A then unat c - 0x57
      else if 0x41 \<le> c \<and> c \<le> 0x5A then unat c - 0x37
      else 36)"

definition radix_value :: "nat \<Rightarrow> jsstring \<Rightarrow> int" where
  "radix_value R z = foldl (\<lambda>acc c. acc * int R + int (digit_value c)) 0 z"

text \<open>
  \<^verbatim>\<open>parseInt(string, radix)\<close>, step by step as ECMAScript defines it; \<open>None\<close> is the call with
  one argument. Leading white space and a sign are skipped; the prefix \<^verbatim>\<open>0x\<close> counts only when
  the radix is absent or 16; the digits stop at the first code unit that is none; no digit at
  all gives not-a-number.
\<close>

definition parseInt :: "jsstring \<Rightarrow> nat option \<Rightarrow> jsnum" where
  "parseInt string radix =
     (let S = dropWhile is_space string;
          negative = (case S of [] \<Rightarrow> False | c # _ \<Rightarrow> c = cu CHR ''-'');
          S = (case S of [] \<Rightarrow> [] | c # cs \<Rightarrow> if c = cu CHR ''+'' \<or> c = cu CHR ''-'' then cs else S);
          R = (case radix of None \<Rightarrow> 0 | Some r \<Rightarrow> r)
      in if R \<noteq> 0 \<and> (R < 2 \<or> 36 < R) then NaN
         else let stripPrefix = (R = 0 \<or> R = 16);
                  R = (if R = 0 then 10 else R);
                  hex = (stripPrefix \<and> (take 2 S = js ''0x'' \<or> take 2 S = js ''0X''));
                  S = (if hex then drop 2 S else S);
                  R = (if hex then 16 else R);
                  Z = takeWhile (\<lambda>c. digit_value c < R) S
              in if Z = [] then NaN
                 else to_double (of_int (radix_value R Z) * (if negative then - 1 else 1)))"

subsection \<open>What the model takes from outside the source\<close>

text \<open>
  Modelled from the spec: the module \<^verbatim>\<open>./pinterest-scraper.js\<close> is not among the sources. The
  spec gives its contract: \<^verbatim>\<open>search(keyword, limit, headless)\<close> returns a sequence of
  SearchResult records, each \<^verbatim>\<open>{ title: optional text, image_url: optional text, link:
  optional text }\<close>, and it may fail or return something that is no sequence. An optional text
  that is absent is \<open>None\<close>. Results are values here: one result object standing at two places
  of the sequence is not modelled.
\<close>

record SearchResult =
  title :: "jsstring option"
  image_url :: "jsstring option"
  link :: "jsstring option"

datatype search_outcome = Raised | NonSequence | Sequence "SearchResult list"

datatype ErrorCode = MethodNotFound | InternalError

text \<open>
  The rest of what the handlers call and the source does not define is a field of \<open>host\<close>:
  the scraper; the printing of a number that is not an integer of at most 53 bits (the
  shortest digits that read back as the same double); the \<^verbatim>\<open>message\<close> that the SDK's \<^verbatim>\<open>McpError\<close>
  builds from a code and a text; and for the image-info handler the \<^verbatim>\<open>JSON.stringify\<close> text of
  its record, which holds the current time; the engine's message for reading a property of
  \<^verbatim>\<open>undefined\<close> or of \<^verbatim>\<open>null\<close> (it names the value); and the engine's message for an object that
  has no primitive value.
\<close>

record host =
  scraper_search :: "jsstring \<Rightarrow> jsnum \<Rightarrow> bool \<Rightarrow> search_outcome"
  number_text :: "rat \<Rightarrow> jsstring"
  McpError_message :: "ErrorCode \<Rightarrow> jsstring \<Rightarrow> jsstring"
  image_info_text :: "jsval \<Rightarrow> jsstring"
  type_error_message :: "jsval \<Rightarrow> jsstring"
  conversion_error_message :: "jsstring"

subsection \<open>Conversions\<close>

definition Number_toString :: "host \<Rightarrow> jsnum \<Rightarrow> jsstring" where
  "Number_toString h x =
     (case x of
        NaN \<Rightarrow> js ''NaN''
      | PosInf \<Rightarrow> js ''Infinity''
      | NegInf \<Rightarrow> js ''-Infinity''
      | Fin q \<Rightarrow>
          if q = of_int \<lfloor>q\<rfloor> \<and> \<bar>q\<bar> \<le> 2 ^ 53
          then (if q < 0 then js ''-'' else []) @ digits_of \<bar>\<lfloor>q\<rfloor>\<bar>
          else number_text h q)"

text \<open>
  \<^verbatim>\<open>String(v)\<close>; \<open>None\<close> is the \<^verbatim>\<open>TypeError\<close> it throws. An array prints its elements separated by
  commas, \<^verbatim>\<open>null\<close> and \<^verbatim>\<open>undefined\<close> as nothing, and throws when printing an element throws. A
  plain object is printed by the method \<^verbatim>\<open>toString\<close> it inherits, as \<^verbatim>\<open>[object Object]\<close>. The
  values here come from JSON, so a key \<^verbatim>\<open>toString\<close> of the object's own holds no function: the
  conversion then turns to \<^verbatim>\<open>valueOf\<close>, which is no function either or returns the object itself,
  and throws.
\<close>

fun ToString :: "host \<Rightarrow> jsval \<Rightarrow> jsstring option" where
  "ToString h Undefined = Some (js ''undefined'')"
| "ToString h Null = Some (js ''null'')"
| "ToString h (Bool b) = Some (if b then js ''true'' else js ''false'')"
| "ToString h (Num x) = Some (Number_toString h x)"
| "ToString h (Str s) = Some s"
| "ToString h (Arr xs) =
     map_option (join (js '',''))
       (those (map (\<lambda>x. if x = Undefined \<or> x = Null then Some [] else ToString h x) xs))"
| "ToString h (Obj kvs) =
     (if map_of kvs (js ''toString'') = None then Some (js ''[object Object]'') else None)"

text \<open>\<^verbatim>\<open>Boolean(v)\<close>, and the test of \<^verbatim>\<open>if (v)\<close>.\<close>

fun ToBoolean :: "jsval \<Rightarrow> bool" where
  "ToBoolean Undefined = False"
| "ToBoolean Null = False"
| "ToBoolean (Bool b) = b"
| "ToBoolean (Num x) = (\<not> isNaN x \<and> x \<noteq> Fin 0)"
| "ToBoolean (Str s) = (s \<noteq> [])"
| "ToBoolean (Arr xs) = True"
| "ToBoolean (Obj kvs) = True"

fun typeof :: "jsval \<Rightarrow> jsstring" where
  "typeof Undefined = js ''undefined''"
| "typeof Null = js ''object''"
| "typeof (Bool b) = js ''boolean''"
| "typeof (Num x) = js ''number''"
| "typeof (Str s) = js ''string''"
| "typeof (Arr xs) = js ''object''"
| "typeof (Obj kvs) = js ''object''"

text \<open>\<^verbatim>\<open>a || b\<close>\<close>

definition js_or :: "jsval \<Rightarrow> jsval \<Rightarrow> jsval" where
  "js_or a b = (if ToBoolean a then a else b)"

text \<open>
  \<^verbatim>\<open>k in v\<close> and \<^verbatim>\<open>v[k]\<close>. The handlers ask for six names only (\<^verbatim>\<open>keyword\<close>, \<^verbatim>\<open>limit\<close>,
  \<^verbatim>\<open>headless\<close>, plain and wrapped in backticks) and for \<^verbatim>\<open>image_url\<close>; no array, string, number
  or boolean has a property of these names, and no prototype has one.
\<close>

definition has_property :: "jsstring \<Rightarrow> jsval \<Rightarrow> bool" where
  "has_property k v = (case v of Obj kvs \<Rightarrow> map_of kvs k \<noteq> None | _ \<Rightarrow> False)"

definition get_property :: "jsval \<Rightarrow> jsstring \<Rightarrow> jsval" where
  "get_property v k =
     (case v of
        Obj kvs \<Rightarrow> (case map_of kvs k of Some x \<Rightarrow> x | None \<Rightarrow> Undefined)
      | _ \<Rightarrow> Undefined)"

section \<open>JSON.parse\<close>

text \<open>
  \<^verbatim>\<open>JSON.parse\<close> accepts the JSON grammar and nothing else; \<open>None\<close> stands for its SyntaxError.
  The text is cut into tokens first, and the tokens are read by a machine with a stack of the
  arrays and objects that are still open.
\<close>

datatype jtoken = LBrace | RBrace | LBrack | RBrack | Colon | Comma | Lit jsval

definition is_json_space :: "char16 \<Rightarrow> bool" where
  "is_json_space c = (c = 0x09 \<or> c = 0x0A \<or> c = 0x0D \<or> c = 0x20)"

definition is_hex :: "char16 \<Rightarrow> bool" where
  "is_hex c = (digit_value c < 16)"

definition escape_char :: "char16 \<Rightarrow> char16 option" where
  "escape_char e =
     (if e = cu CHR 0x22 then Some 0x22
      else if e = cu CHR 0x5C then Some 0x5C
      else if e = cu CHR ''/'' then Some 0x2F
      else if e = cu CHR ''b'' then Some 0x08
      else if e = cu CHR ''f'' then Some 0x0C
      else if e = cu CHR ''n'' then Some 0x0A
      else if e = cu CHR ''r'' then Some 0x0D
      else if e = cu CHR ''t'' then Some 0x09
      else None)"

text \<open>
  The text of a string literal after its opening quote: the code units it denotes, and what
  follows the closing quote.
\<close>

fun scan_string :: "jsstring \<Rightarrow> (jsstring \<times> jsstring) option" where
  "scan_string [] = None"
| "scan_string (c # cs) =
     (if c = cu CHR 0x22 then Some ([], cs)
      else if c = cu CHR 0x5C then
        (case cs of
           [] \<Rightarrow> None
         | e # cs' \<Rightarrow>
             if e = cu CHR ''u'' then
               (case cs' of
                  a # b # c' # d # rest \<Rightarrow>
                    if is_hex a \<and> is_hex b \<and> is_hex c' \<and> is_hex d
                    then map_option (\<lambda>(str, r). (of_int (radix_value 16 [a, b, c', d]) # str, r))
                           (scan_string rest)
                    else None
                | _ \<Rightarrow> None)
             else (case escape_char e of
                     None \<Rightarrow> None
                   | Some x \<Rightarrow> map_option (\<lambda>(str, r). (x # str, r)) (scan_string cs')))
      else if c < 0x20 then None
      else map_option (\<lambda>(str, r). (c # str, r)) (scan_string cs))"

definition int_part :: "jsstring \<Rightarrow> (jsstring \<times> jsstring) option" where
  "int_part s =
     (case s of
        [] \<Rightarrow> None
      | c # cs \<Rightarrow>
          if c = cu CHR ''0'' then Some ([c], cs)
          else if is_digit c then Some (takeWhile is_digit s, dropWhile is_digit s)
          else None)"

definition frac_part :: "jsstring \<Rightarrow> (jsstring \<times> jsstring) option" where
  "frac_part s =
     (case s of
        [] \<Rightarrow> Some ([], s)
      | c # cs \<Rightarrow>
          if c = cu CHR ''.'' then
            (if takeWhile is_digit cs = [] then None
             else Some (takeWhile is_digit cs, dropWhile is_digit cs))
          else Some ([], s))"

definition exp_part :: "jsstring \<Rightarrow> (int \<times> jsstring) option" where
  "exp_part s =
     (case s of
        [] \<Rightarrow> Some (0, s)
      | c # cs \<Rightarrow>
          if c = cu CHR ''e'' \<or> c = cu CHR ''E'' then
            (let (negative, ds) =
                   (case cs of
                      [] \<Rightarrow> (False, cs)
                    | d # ds \<Rightarrow>
                        if d = cu CHR ''-'' then (True, ds)
                        else if d = cu CHR ''+'' then (False, ds)
                        else (False, cs))
             in if takeWhile is_digit ds = [] then None
                else Some ((if negative then - 1 else 1) * radix_value 10 (takeWhile is_digit ds),
                           dropWhile is_digit ds))
          else Some (0, s))"

text \<open>A number literal at the start of \<open>s\<close>: the double it reads as, and what follows it.\<close>

definition scan_number :: "jsstring \<Rightarrow> (jsnum \<times> jsstring) option" where
  "scan_number s =
     (let (negative, s1) =
            (case s of
               [] \<Rightarrow> (False, s)
             | c # cs \<Rightarrow> if c = cu CHR ''-'' then (True, cs) else (False, s))
      in case int_part s1 of
           None \<Rightarrow> None
         | Some (ip, s2) \<Rightarrow>
             (case frac_part s2 of
                None \<Rightarrow> None
              | Some (fp, s3) \<Rightarrow>
                  (case exp_part s3 of
                     None \<Rightarrow> None
                   | Some (ex, s4) \<Rightarrow>
                       Some (to_double
                               ((if negative then - 1 else 1) * of_int (radix_value 10 (ip @ fp))
                                  * pow10 (ex - int (length fp))),
                             s4))))"

lemma scan_string_length: "scan_string s = Some (str, rest) \<Longrightarrow> length rest \<le> length s"
proof (induction s arbitrary: str rest rule: scan_string.induct)
  case 1
  then show ?case by simp
next
  case (2 c cs)
  show ?case
  proof (cases "c = cu CHR 0x22")
    case True
    with "2.prems" show ?thesis by simp
  next
    case nq: False
    show ?thesis
    proof (cases "c = cu CHR 0x5C")
      case False
      with nq "2.prems" obtain str' where "scan_string cs = Some (str', rest)"
        by (auto split: if_splits)
      from "2.IH"(3) [OF nq False _ this] "2.prems" nq False show ?thesis
        by (auto split: if_splits)
    next
      case bs: True
      show ?thesis
      proof (cases cs)
        case Nil
        with nq bs "2.prems" show ?thesis by simp
      next
        case (Cons e cs')
        show ?thesis
        proof (cases "e = cu CHR ''u''")
          case True
          with nq bs Cons "2.prems" obtain a b c' d r str' where
            cs': "cs' = a # b # c' # d # r" and hex: "is_hex a \<and> is_hex b \<and> is_hex c' \<and> is_hex d"
            and sc: "scan_string r = Some (str', rest)"
            by (auto split: list.splits if_splits)
          have "length rest \<le> length r"
            using "2.IH"(1) nq bs Cons True cs' hex sc by blast
          with cs' Cons show ?thesis by simp
        next
          case False
          with nq bs Cons "2.prems" obtain x str' where
            esc: "escape_char e = Some x" and sc: "scan_string cs' = Some (str', rest)"
            by (auto split: option.splits)
          from "2.IH"(2) [OF nq bs Cons False esc sc] Cons show ?thesis by simp
        qed
      qed
    qed
  qed
qed

lemma int_part_length: "int_part s = Some (ip, rest) \<Longrightarrow> length rest < length s"
  by (auto simp: int_part_def split: list.splits if_splits
      intro: le_imp_less_Suc length_dropWhile_le)

lemma frac_part_length: "frac_part s = Some (fp, rest) \<Longrightarrow> length rest \<le> length s"
  by (auto simp: frac_part_def split: list.splits if_splits
      intro: le_SucI length_dropWhile_le)

lemma exp_part_length: "exp_part s = Some (ex, rest) \<Longrightarrow> length rest \<le> length s"
  by (auto simp: exp_part_def Let_def split: list.splits if_splits prod.splits
      intro: le_SucI length_dropWhile_le)

lemma scan_number_length:
  assumes "scan_number s = Some (x, rest)"
  shows "length rest < length s"
proof -
  obtain negative s1 where s1:
    "(case s of [] \<Rightarrow> (False, s)
      | c # cs \<Rightarrow> if c = cu CHR ''-'' then (True, cs) else (False, s)) = (negative, s1)"
    by (cases "case s of [] \<Rightarrow> (False, s)
      | c # cs \<Rightarrow> if c = cu CHR ''-'' then (True, cs) else (False, s)") auto
  then have le: "length s1 \<le> length s"
    by (auto split: list.splits if_splits)
  from assms s1 obtain ip s2 fp s3 ex where
    "int_part s1 = Some (ip, s2)" "frac_part s2 = Some (fp, s3)" "exp_part s3 = Some (ex, rest)"
    by (auto simp: scan_number_def split: option.splits)
  then have "length s2 < length s1" "length s3 \<le> length s2" "length rest \<le> length s3"
    by (auto dest: int_part_length frac_part_length exp_part_length)
  with le show ?thesis by linarith
qed

function tokenize :: "jsstring \<Rightarrow> jtoken list option" where
  "tokenize [] = Some []"
| "tokenize (c # cs) =
     (if is_json_space c then tokenize cs
      else if c = cu CHR ''{'' then map_option (Cons LBrace) (tokenize cs)
      else if c = cu CHR ''}'' then map_option (Cons RBrace) (tokenize cs)
      else if c = cu CHR ''['' then map_option (Cons LBrack) (tokenize cs)
      else if c = cu CHR '']'' then map_option (Cons RBrack) (tokenize cs)
      else if c = cu CHR '':'' then map_option (Cons Colon) (tokenize cs)
      else if c = cu CHR '','' then map_option (Cons Comma) (tokenize cs)
      else if c = cu CHR 0x22 then
        (case scan_string cs of
           None \<Rightarrow> None
         | Some (str, rest) \<Rightarrow> map_option (Cons (Lit (Str str))) (tokenize rest))
      else if c = cu CHR ''-'' \<or> is_digit c then
        (case scan_number (c # cs) of
           None \<Rightarrow> None
         | Some (x, rest) \<Rightarrow> map_option (Cons (Lit (Num x))) (tokenize rest))
      else if take 4 (c # cs) = js ''true'' then
        map_option (Cons (Lit (Bool True))) (tokenize (drop 3 cs))
      else if take 5 (c # cs) = js ''false'' then
        map_option (Cons (Lit (Bool False))) (tokenize (drop 4 cs))
      else if take 4 (c # cs) = js ''null'' then
        map_option (Cons (Lit Null)) (tokenize (drop 3 cs))
      else None)"
  by pat_completeness auto
termination
  by (relation "measure length")
    (auto dest: scan_string_length scan_number_length intro: le_imp_less_Suc)

text \<open>
  What the machine waits for, and the containers that are open: an array with its elements so
  far (latest first), an object with its members so far (latest first, so that the last of two
  equal keys is the one that counts), an object whose next value belongs to a key.
\<close>

datatype jmode = WantValue | WantValueOrEnd | WantKeyOrEnd | WantKey | WantColon | WantNext | Finished jsval

datatype jframe =
    ArrFrame "jsval list"
  | ObjFrame "(jsstring \<times> jsval) list"
  | KeyFrame "(jsstring \<times> jsval) list" jsstring

fun put_value :: "jsval \<Rightarrow> jframe list \<Rightarrow> (jmode \<times> jframe list) option" where
  "put_value v [] = Some (Finished v, [])"
| "put_value v (ArrFrame xs # st) = Some (WantNext, ArrFrame (v # xs) # st)"
| "put_value v (KeyFrame ms k # st) = Some (WantNext, ObjFrame ((k, v) # ms) # st)"
| "put_value v (ObjFrame ms # st) = None"

fun start_value :: "jtoken \<Rightarrow> jframe list \<Rightarrow> (jmode \<times> jframe list) option" where
  "start_value (Lit v) st = put_value v st"
| "start_value LBrack st = Some (WantValueOrEnd, ArrFrame [] # st)"
| "start_value LBrace st = Some (WantKeyOrEnd, ObjFrame [] # st)"
| "start_value t st = None"

fun start_member :: "jtoken \<Rightarrow> jframe list \<Rightarrow> (jmode \<times> jframe list) option" where
  "start_member (Lit (Str k)) (ObjFrame ms # st) = Some (WantColon, KeyFrame ms k # st)"
| "start_member t st = None"

fun parse_step :: "jtoken \<Rightarrow> jmode \<Rightarrow> jframe list \<Rightarrow> (jmode \<times> jframe list) option" where
  "parse_step t WantValue st = start_value t st"
| "parse_step t WantValueOrEnd st =
     (case (t, st) of
        (RBrack, ArrFrame xs # st') \<Rightarrow> put_value (Arr (rev xs)) st'
      | _ \<Rightarrow> start_value t st)"
| "parse_step t WantKeyOrEnd st =
     (case (t, st) of
        (RBrace, ObjFrame ms # st') \<Rightarrow> put_value (Obj ms) st'
      | _ \<Rightarrow> start_member t st)"
| "parse_step t WantKey st = start_member t st"
| "parse_step t WantColon st = (case t of Colon \<Rightarrow> Some (WantValue, st) | _ \<Rightarrow> None)"
| "parse_step t WantNext st =
     (case (t, st) of
        (Comma, ArrFrame xs # st') \<Rightarrow> Some (WantValue, st)
      | (RBrack, ArrFrame xs # st') \<Rightarrow> put_value (Arr (rev xs)) st'
      | (Comma, ObjFrame ms # st') \<Rightarrow> Some (WantKey, st)
      | (RBrace, ObjFrame ms # st') \<Rightarrow> put_value (Obj ms) st'
      | _ \<Rightarrow> None)"
| "parse_step t (Finished v) st = None"

fun parse_tokens :: "jtoken list \<Rightarrow> jmode \<Rightarrow> jframe list \<Rightarrow> jsval option" where
  "parse_tokens [] m st = (case m of Finished v \<Rightarrow> Some v | _ \<Rightarrow> None)"
| "parse_tokens (t # ts) m st =
     (case parse_step t m st of
        None \<Rightarrow> None
      | Some (m', st') \<Rightarrow> parse_tokens ts m' st')"

definition JSON_parse :: "jsstring \<Rightarrow> jsval option" where
  "JSON_parse s =
     (case tokenize s of
        None \<Rightarrow> None
      | Some ts \<Rightarrow> parse_tokens ts WantValue [])"

section \<open>The search handler\<close>

subsection \<open>Reading the arguments (lines 145 to 265 of the source)\<close>

definition DEFAULT_SEARCH_LIMIT :: jsnum where
  "DEFAULT_SEARCH_LIMIT = Fin 10"

definition DEFAULT_SEARCH_KEYWORD :: jsstring where
  "DEFAULT_SEARCH_KEYWORD = js ''landscape''"

definition DEFAULT_HEADLESS_MODE :: bool where
  "DEFAULT_HEADLESS_MODE = True"

text \<open>The three local variables \<^verbatim>\<open>keyword\<close>, \<^verbatim>\<open>limit\<close> and \<^verbatim>\<open>headless\<close> of the handler.\<close>

record CanonicalQuery =
  keyword :: jsstring
  limit :: jsnum
  headless :: bool

text \<open>
  The regular expressions of the handler, in the order of the source: the backtick and the
  single quote (both with the flag \<^verbatim>\<open>g\<close>), \<^verbatim>\<open>(\w+):\<close> (with \<^verbatim>\<open>g\<close>), and the two patterns of the last
  fallback (with \<^verbatim>\<open>i\<close>), \<^verbatim>\<open>["`']?keyword["`']?\s*[:=]\s*["`']([^"`']+)["`']\<close> and
  \<^verbatim>\<open>["`']?limit["`']?\s*[:=]\s*(\d+)\<close>.
\<close>

definition backtick_re :: "ritem list" where
  "backtick_re = [Item (is_ch CHR 0x60) Once]"

definition single_quote_re :: "ritem list" where
  "single_quote_re = [Item (is_ch CHR 0x27) Once]"

definition bare_key_re :: "ritem list" where
  "bare_key_re = [Group is_word Plus, Item (is_ch CHR '':'') Once]"

definition letters_ci :: "string \<Rightarrow> ritem list" where
  "letters_ci w = map (\<lambda>p. Item (eq_ci p) Once) w"

definition colon_or_equals :: "char16 \<Rightarrow> bool" where
  "colon_or_equals c = (c = cu CHR '':'' \<or> c = cu CHR ''='')"

definition keyword_re :: "ritem list" where
  "keyword_re =
     [Item is_quote Opt] @ letters_ci ''keyword'' @
     [Item is_quote Opt, Item is_space Star, Item colon_or_equals Once, Item is_space Star,
      Item is_quote Once, Group (\<lambda>c. \<not> is_quote c) Plus, Item is_quote Once]"

definition limit_re :: "ritem list" where
  "limit_re =
     [Item is_quote Opt] @ letters_ci ''limit'' @
     [Item is_quote Opt, Item is_space Star, Item colon_or_equals Once, Item is_space Star,
      Group is_digit Plus]"

text \<open>The first capture of a match, \<^verbatim>\<open>m[1]\<close>.\<close>

definition capture1 :: "jsstring list \<Rightarrow> jsstring" where
  "capture1 caps = (case caps of [] \<Rightarrow> [] | cap # _ \<Rightarrow> cap)"

text \<open>
  Lines 161 to 189: \<^verbatim>\<open>args\<close> is an object (or an array). \<open>None\<close> is the \<^verbatim>\<open>TypeError\<close> of a call of
  \<^verbatim>\<open>String\<close>, which leaves the block: what follows the call is not run.
\<close>

definition keyword_from_object :: "host \<Rightarrow> jsval \<Rightarrow> CanonicalQuery \<Rightarrow> CanonicalQuery option" where
  "keyword_from_object h args q =
     (case (has_property (js ''keyword'') args, get_property args (js ''keyword'')) of
        (True, Str s) \<Rightarrow> Some (q\<lparr>keyword := trim s\<rparr>)
      | _ \<Rightarrow>
          if has_property (js ''`keyword`'') args
          then (case ToString h (get_property args (js ''`keyword`'')) of
                  None \<Rightarrow> None
                | Some s \<Rightarrow> Some (q\<lparr>keyword := trim s\<rparr>))
          else Some q)"

text \<open>
  The value \<^verbatim>\<open>typeof v === 'number' ? v : parseInt(String(v), 10)\<close> of lines 174 and 178.
\<close>

definition limit_of_value :: "host \<Rightarrow> jsval \<Rightarrow> jsnum option" where
  "limit_of_value h v =
     (case v of
        Num x \<Rightarrow> Some x
      | _ \<Rightarrow> (case ToString h v of None \<Rightarrow> None | Some s \<Rightarrow> Some (parseInt s (Some 10))))"

text \<open>
  The test of line 173, \<^verbatim>\<open>'limit' in args && (typeof args.limit === 'number' ||
  !isNaN(parseInt(String(args.limit))))\<close>: \<^verbatim>\<open>String\<close> is called when the key is there and its value
  is no number.
\<close>

definition limit_is_usable :: "host \<Rightarrow> jsval \<Rightarrow> bool option" where
  "limit_is_usable h args =
     (let args_limit = get_property args (js ''limit'') in
      if \<not> has_property (js ''limit'') args then Some False
      else if typeof args_limit = js ''number'' then Some True
      else (case ToString h args_limit of
              None \<Rightarrow> None
            | Some s \<Rightarrow> Some (\<not> isNaN (parseInt s None))))"

definition limit_from_object :: "host \<Rightarrow> jsval \<Rightarrow> CanonicalQuery \<Rightarrow> CanonicalQuery option" where
  "limit_from_object h args q =
     (case limit_is_usable h args of
        None \<Rightarrow> None
      | Some True \<Rightarrow>
          (case limit_of_value h (get_property args (js ''limit'')) of
             None \<Rightarrow> None
           | Some x \<Rightarrow> Some (q\<lparr>limit := x\<rparr>))
      | Some False \<Rightarrow>
          if has_property (js ''`limit`'') args
          then let limitValue = get_property args (js ''`limit`'')
               in (case limit_of_value h limitValue of
                     None \<Rightarrow> None
                   | Some x \<Rightarrow> Some (q\<lparr>limit := x\<rparr>))
          else Some q)"

definition headless_from_object :: "jsval \<Rightarrow> CanonicalQuery \<Rightarrow> CanonicalQuery" where
  "headless_from_object args q =
     (case (has_property (js ''headless'') args, get_property args (js ''headless'')) of
        (True, Bool b) \<Rightarrow> q\<lparr>headless := b\<rparr>
      | _ \<Rightarrow>
          if has_property (js ''`headless`'') args
          then q\<lparr>headless := ToBoolean (get_property args (js ''`headless`''))\<rparr>
          else q)"

definition from_object :: "host \<Rightarrow> jsval \<Rightarrow> CanonicalQuery \<Rightarrow> CanonicalQuery option" where
  "from_object h args q =
     (case keyword_from_object h args q of
        None \<Rightarrow> None
      | Some q \<Rightarrow>
          (case limit_from_object h args q of
             None \<Rightarrow> None
           | Some q \<Rightarrow> Some (headless_from_object args q)))"

text \<open>Lines 215 to 234: the text was parsed.\<close>

definition from_parsed :: "jsval \<Rightarrow> CanonicalQuery \<Rightarrow> CanonicalQuery" where
  "from_parsed parsed q =
     (if ToBoolean parsed then
        let q = (case get_property parsed (js ''keyword'') of
                   Str s \<Rightarrow> if s \<noteq> [] then q\<lparr>keyword := trim s\<rparr> else q
                 | _ \<Rightarrow> q);
            q = (case get_property parsed (js ''limit'') of
                   Num x \<Rightarrow> q\<lparr>limit := x\<rparr>
                 | Str s \<Rightarrow>
                     if \<not> isNaN (parseInt s None) then q\<lparr>limit := parseInt s (Some 10)\<rparr> else q
                 | _ \<Rightarrow> q);
            q = (case get_property parsed (js ''headless'') of
                   Bool b \<Rightarrow> q\<lparr>headless := b\<rparr>
                 | _ \<Rightarrow> q)
        in q
      else q)"

text \<open>Lines 239 to 250: neither parse worked.\<close>

definition from_regex :: "jsstring \<Rightarrow> CanonicalQuery \<Rightarrow> CanonicalQuery" where
  "from_regex args q =
     (let q = (case rsearch keyword_re args of
                 None \<Rightarrow> q
               | Some (pre, keywordMatch, rest) \<Rightarrow>
                   if capture1 keywordMatch \<noteq> [] then q\<lparr>keyword := trim (capture1 keywordMatch)\<rparr>
                   else q);
          q = (case rsearch limit_re args of
                 None \<Rightarrow> q
               | Some (pre, limitMatch, rest) \<Rightarrow>
                   if capture1 limitMatch \<noteq> []
                   then q\<lparr>limit := parseInt (capture1 limitMatch) (Some 10)\<rparr>
                   else q)
      in q)"

definition fixedJson :: "jsstring \<Rightarrow> jsstring" where
  "fixedJson args =
     replace_all bare_key_re (\<lambda>caps. js ''\"'' @ capture1 caps @ js ''\":'')
       (replace_all single_quote_re (\<lambda>caps. js ''\"'') args)"

text \<open>Lines 190 to 251: \<^verbatim>\<open>args\<close> is a string.\<close>

definition from_string :: "jsstring \<Rightarrow> CanonicalQuery \<Rightarrow> CanonicalQuery" where
  "from_string args q =
     (case JSON_parse args of
        Some parsed \<Rightarrow> from_parsed parsed q
      | None \<Rightarrow>
          (case JSON_parse (fixedJson args) of
             Some parsed \<Rightarrow> from_parsed parsed q
           | None \<Rightarrow> from_regex args q))"

text \<open>
  Lines 146 to 253: the values before the defaults are applied, or \<open>None\<close> when reading an
  object throws. Reading a string does not throw: the \<^verbatim>\<open>catch\<close> of line 236 takes what
  \<^verbatim>\<open>JSON.parse\<close> throws.
\<close>

definition extract_args :: "host \<Rightarrow> jsval \<Rightarrow> CanonicalQuery option" where
  "extract_args h args =
     (let q = \<lparr>keyword = [], limit = DEFAULT_SEARCH_LIMIT, headless = DEFAULT_HEADLESS_MODE\<rparr>;
          args = (case args of
                    Str s \<Rightarrow> Str (replace_all backtick_re (\<lambda>caps. js ''\"'') s)
                  | _ \<Rightarrow> args)
      in if ToBoolean args then
           (if typeof args = js ''object'' then from_object h args q
            else (case args of Str s \<Rightarrow> Some (from_string s q) | _ \<Rightarrow> Some q))
         else Some q)"

text \<open>Lines 255 to 265: the defaults.\<close>

definition apply_defaults :: "CanonicalQuery \<Rightarrow> CanonicalQuery" where
  "apply_defaults q =
     (let q = (if keyword q = [] then q\<lparr>keyword := DEFAULT_SEARCH_KEYWORD\<rparr> else q);
          q = (if isNaN (limit q) \<or> le_zero (limit q) then q\<lparr>limit := DEFAULT_SEARCH_LIMIT\<rparr> else q)
      in q)"

text \<open>
  Lines 146 to 265, the normalizer: the query that goes to the scraper, or \<open>None\<close> when the
  lines throw and there is no query.
\<close>

definition normalize_args :: "host \<Rightarrow> jsval \<Rightarrow> CanonicalQuery option" where
  "normalize_args h args =
     (case extract_args h args of None \<Rightarrow> None | Some q \<Rightarrow> Some (apply_defaults q))"

subsection \<open>Fixing the image URLs (lines 282 to 308)\<close>

definition thumbnailPatterns :: "jsstring list" where
  "thumbnailPatterns = [js ''/60x60/'', js ''/236x/'', js ''/474x/'', js ''/736x/'']"

text \<open>The pattern \<^verbatim>\<open>\/\d+x\d*\/\<close>.\<close>

definition thumbnail_re :: "ritem list" where
  "thumbnail_re =
     [Item (is_ch CHR ''/'') Once, Item is_digit Plus, Item (is_ch CHR ''x'') Once,
      Item is_digit Star, Item (is_ch CHR ''/'') Once]"

definition needsFix :: "jsstring \<Rightarrow> bool" where
  "needsFix url =
     (if list_ex (includes_str url) thumbnailPatterns then True
      else rsearch thumbnail_re url \<noteq> None)"

definition fix_image_url :: "jsstring \<Rightarrow> jsstring" where
  "fix_image_url url =
     (if needsFix url then replace_first thumbnail_re (\<lambda>caps. js ''/originals/'') url else url)"

definition sanitize_result :: "SearchResult \<Rightarrow> SearchResult" where
  "sanitize_result result =
     (case image_url result of
        None \<Rightarrow> result
      | Some url \<Rightarrow> if url \<noteq> [] then result\<lparr>image_url := Some (fix_image_url url)\<rparr> else result)"

definition sanitize :: "SearchResult list \<Rightarrow> SearchResult list" where
  "sanitize validResults = map sanitize_result validResults"

subsection \<open>The content of the response (lines 311 to 350)\<close>

record ContentItem =
  item_type :: jsstring
  item_text :: jsstring

definition text_item :: "jsstring \<Rightarrow> ContentItem" where
  "text_item t = \<lparr>item_type = js ''text'', item_text = t\<rparr>"

record ToolResponse =
  content :: "ContentItem list"

text \<open>\<^verbatim>\<open>t || d\<close> for an optional text: absent and empty both give \<open>d\<close>.\<close>

definition or_else :: "jsstring option \<Rightarrow> jsstring \<Rightarrow> jsstring" where
  "or_else t d = (case t of None \<Rightarrow> d | Some s \<Rightarrow> if s \<noteq> [] then s else d)"

definition summary_item :: "int \<Rightarrow> jsstring \<Rightarrow> ContentItem" where
  "summary_item n kw =
     text_item (js ''Found '' @ digits_of n @ js '' images related to \"'' @ kw @ js ''\" on Pinterest'')"

definition title_item :: "int \<Rightarrow> SearchResult \<Rightarrow> ContentItem" where
  "title_item index result =
     text_item (js ''Image '' @ digits_of (index + 1) @ js '': '' @ or_else (title result) (js ''No title''))"

definition link_item :: "SearchResult \<Rightarrow> ContentItem" where
  "link_item result = text_item (js ''Link: '' @ or_else (image_url result) (js ''No link''))"

text \<open>The test \<^verbatim>\<open>result.link && result.link !== result.image_url\<close>.\<close>

definition has_original_page :: "SearchResult \<Rightarrow> bool" where
  "has_original_page result =
     (case link result of
        None \<Rightarrow> False
      | Some l \<Rightarrow> l \<noteq> [] \<and> image_url result \<noteq> Some l)"

definition original_page_item :: "SearchResult \<Rightarrow> ContentItem" where
  "original_page_item result =
     text_item (js ''Original page: '' @ (case link result of None \<Rightarrow> js ''undefined'' | Some l \<Rightarrow> l))"

definition separator_item :: ContentItem where
  "separator_item = text_item (js ''---'')"

text \<open>
  The callback of \<^verbatim>\<open>forEach\<close> pushes onto \<^verbatim>\<open>contentItems\<close>; \<open>n\<close> is \<^verbatim>\<open>validResults.length\<close>.
\<close>

definition push_result :: "int \<Rightarrow> SearchResult \<Rightarrow> int \<Rightarrow> ContentItem list \<Rightarrow> ContentItem list" where
  "push_result n result index contentItems =
     (let contentItems = contentItems @ [title_item index result];
          contentItems = contentItems @ [link_item result];
          contentItems = (if has_original_page result
                          then contentItems @ [original_page_item result] else contentItems);
          contentItems = (if index < n - 1 then contentItems @ [separator_item] else contentItems)
      in contentItems)"

fun forEach_results :: "int \<Rightarrow> SearchResult list \<Rightarrow> int \<Rightarrow> ContentItem list \<Rightarrow> ContentItem list" where
  "forEach_results n [] index contentItems = contentItems"
| "forEach_results n (result # rest) index contentItems =
     forEach_results n rest (index + 1) (push_result n result index contentItems)"

definition build_content :: "jsstring \<Rightarrow> SearchResult list \<Rightarrow> ContentItem list" where
  "build_content kw validResults =
     forEach_results (int (length validResults)) validResults 0
       [summary_item (int (length validResults)) kw]"

subsection \<open>\<^verbatim>\<open>handlePinterestSearch\<close>\<close>

text \<open>
  Lines 270 to 279: a failure of the scraper and a result that is no array both leave the
  empty list.
\<close>

definition validResults_of :: "search_outcome \<Rightarrow> SearchResult list" where
  "validResults_of outcome =
     (case outcome of Raised \<Rightarrow> [] | NonSequence \<Rightarrow> [] | Sequence results \<Rightarrow> results)"

text \<open>
  Lines 144 to 361. The \<^verbatim>\<open>catch\<close> of line 351 takes the \<^verbatim>\<open>TypeError\<close> of the normalizer: the scraper
  is not called then, and the response quotes the error's message. With results that are
  SearchResult records nothing after line 265 throws.
\<close>

definition handlePinterestSearch :: "host \<Rightarrow> jsval \<Rightarrow> ToolResponse" where
  "handlePinterestSearch h args =
     (case normalize_args h args of
        None \<Rightarrow>
          \<lparr>content = [text_item (js ''Error during search: '' @ conversion_error_message h)]\<rparr>
      | Some q \<Rightarrow>
          let results = scraper_search h (keyword q) (limit q) (headless q);
              validResults = sanitize (validResults_of results)
          in \<lparr>content = build_content (keyword q) validResults\<rparr>)"

section \<open>The image-info handler and the dispatcher\<close>

text \<open>
  Lines 367 to 400. Reading \<^verbatim>\<open>args.image_url\<close> throws for \<^verbatim>\<open>undefined\<close> and \<^verbatim>\<open>null\<close>, and the
  handler catches it.
\<close>

definition handlePinterestGetImageInfo :: "host \<Rightarrow> jsval \<Rightarrow> ToolResponse" where
  "handlePinterestGetImageInfo h args =
     (if args = Undefined \<or> args = Null
      then \<lparr>content = [text_item (js ''Error getting image info: '' @ type_error_message h args)]\<rparr>
      else \<lparr>content = [text_item (js ''Pinterest Image Information''),
                       text_item (image_info_text h (get_property args (js ''image_url'')))]\<rparr>)"

record McpError =
  code :: ErrorCode
  message :: jsstring

definition new_McpError :: "host \<Rightarrow> ErrorCode \<Rightarrow> jsstring \<Rightarrow> McpError" where
  "new_McpError h c m = \<lparr>code = c, message = McpError_message h c m\<rparr>"

text \<open>
  Lines 119 to 129, the \<^verbatim>\<open>switch\<close> inside the \<^verbatim>\<open>try\<close>: \<open>Inl\<close> is a throw. The request holds the
  tool's name and the two fields \<^verbatim>\<open>args\<close> and \<^verbatim>\<open>arguments\<close>.
\<close>

definition switch_tool :: "host \<Rightarrow> jsstring \<Rightarrow> jsval \<Rightarrow> jsval \<Rightarrow> McpError + ToolResponse" where
  "switch_tool h name args arguments =
     (if name = js ''pinterest_search''
      then Inr (handlePinterestSearch h (js_or args arguments))
      else if name = js ''pinterest_get_image_info''
      then Inr (handlePinterestGetImageInfo h (js_or args arguments))
      else Inl (new_McpError h MethodNotFound (js ''Unknown tool: '' @ name)))"

text \<open>
  Lines 113 to 137, the handler of a tool call: whatever the \<^verbatim>\<open>try\<close> block throws is caught and
  thrown again as an internal error that quotes the message.
\<close>

definition call_tool :: "host \<Rightarrow> jsstring \<Rightarrow> jsval \<Rightarrow> jsval \<Rightarrow> McpError + ToolResponse" where
  "call_tool h name args arguments =
     (case switch_tool h name args arguments of
        Inr response \<Rightarrow> Inr response
      | Inl error \<Rightarrow> Inl (new_McpError h InternalError (js ''Tool call failed: '' @ message error)))"

section \<open>Notions used in the statements\<close>

text \<open>
  A host for closed examples: the scraper returns something that is no array, an error's
  message is built the way the SDK builds it (\<^verbatim>\<open>MCP error <code>: <text>\<close>, with -32601 for
  method-not-found and -32603 for an internal error), and the two messages of the engine are
  those of V8.
\<close>

definition example_host :: host where
  "example_host =
     \<lparr>scraper_search = (\<lambda>keyword limit headless. NonSequence),
      number_text = (\<lambda>q. js ''0.5''),
      McpError_message =
        (\<lambda>c m. js ''MCP error '' @
                (case c of MethodNotFound \<Rightarrow> js ''-32601'' | InternalError \<Rightarrow> js ''-32603'') @
                js '': '' @ m),
      image_info_text = (\<lambda>v. js ''{}''),
      type_error_message =
        (\<lambda>v. js ''Cannot read properties of '' @
             (if v = Null then js ''null'' else js ''undefined'') @
             js '' (reading '' @ [cu (CHR 0x27)] @ js ''image_url'' @ [cu (CHR 0x27)] @ js '')''),
      conversion_error_message = js ''Cannot convert object to primitive value''\<rparr>"

text \<open>
  A URL holds at most one thumbnail segment: after its first segment, what starts at the
  closing slash of that segment holds none.
\<close>

definition single_segment :: "jsstring \<Rightarrow> bool" where
  "single_segment url =
     (case rsearch thumbnail_re url of
        None \<Rightarrow> True
      | Some (pre, caps, rest) \<Rightarrow> rsearch thumbnail_re (js ''/'' @ rest) = None)"

text \<open>
  The layout of the response in the words of the specification: the blocks of one result, and
  the blocks of all results with a separator between two neighbours.
\<close>

definition result_blocks :: "int \<Rightarrow> SearchResult \<Rightarrow> ContentItem list" where
  "result_blocks index result =
     [title_item index result, link_item result] @
     (if has_original_page result then [original_page_item result] else [])"

fun with_separators :: "ContentItem list list \<Rightarrow> ContentItem list" where
  "with_separators [] = []"
| "with_separators [b] = b"
| "with_separators (b # c # bs) = b @ [separator_item] @ with_separators (c # bs)"

text \<open>
  \<^verbatim>\<open>String(v)\<close> returns: no object inside \<open>v\<close> that \<^verbatim>\<open>String\<close> reaches has a key \<^verbatim>\<open>toString\<close> of its
  own. A mapping is convertible when this holds of the values that the normalizer may hand
  to \<^verbatim>\<open>String\<close>: those under \<^verbatim>\<open>limit\<close> and under the backtick spellings of \<^verbatim>\<open>keyword\<close> and \<^verbatim>\<open>limit\<close>.
\<close>

fun printable :: "jsval \<Rightarrow> bool" where
  "printable (Arr xs) = list_all printable xs"
| "printable (Obj kvs) = (map_of kvs (js ''toString'') = None)"
| "printable v = True"

definition printable_at :: "(jsstring \<times> jsval) list \<Rightarrow> jsstring \<Rightarrow> bool" where
  "printable_at kvs k = (case map_of kvs k of None \<Rightarrow> True | Some v \<Rightarrow> printable v)"

definition convertible :: "(jsstring \<times> jsval) list \<Rightarrow> bool" where
  "convertible kvs =
     (printable_at kvs (js ''`keyword`'') \<and> printable_at kvs (js ''limit'') \<and>
      printable_at kvs (js ''`limit`''))"

definition is_positive :: "jsnum \<Rightarrow> bool" where
  "is_positive x = (case x of NaN \<Rightarrow> False | PosInf \<Rightarrow> True | NegInf \<Rightarrow> False | Fin q \<Rightarrow> 0 < q)"

definition positive_integer :: "jsnum \<Rightarrow> bool" where
  "positive_integer x = (case x of Fin q \<Rightarrow> 0 < q \<and> q = of_int \<lfloor>q\<rfloor> | _ \<Rightarrow> False)"

section \<open>The matcher on the thumbnail pattern\<close>

lemma greedy_only_top:
  "(\<And>j. j < k \<Longrightarrow> f j = None) \<Longrightarrow> greedy lo k f = (if lo \<le> k then f k else None)"
proof (induction k)
  case 0
  then show ?case by simp
next
  case (Suc k)
  have "greedy lo k f = None"
  proof (cases "greedy lo k f")
    case (Some r)
    then obtain j where "j \<le> k" "f j = Some r" by (auto dest: greedy_Some)
    with Suc.prems [of j] show ?thesis by simp
  qed simp
  then show ?case by (auto split: option.splits)
qed

lemma rmatch_Once:
  "rmatch (Item p Once # its) s =
     (case s of [] \<Rightarrow> None | c # cs \<Rightarrow> if p c then rmatch its cs else None)"
proof (cases s)
  case Nil
  then show ?thesis by (simp add: run_def)
next
  case (Cons c cs)
  then show ?thesis
    by (cases "p c") (auto simp: run_def numeral_eq_Suc split: option.splits)
qed

lemma drop_run: "drop (run p s) s = dropWhile p s"
  by (simp add: run_def dropWhile_eq_drop)

lemma drop_below_run: "j < run p s \<Longrightarrow> \<exists>c cs. drop j s = c # cs \<and> p c"
proof -
  assume j: "j < run p s"
  then have "j < length s" using length_takeWhile_le [of p s] by (simp add: run_def)
  then have d: "drop j s = s ! j # drop (Suc j) s" by (rule Cons_nth_drop_Suc [symmetric])
  from j have "p (s ! j)" unfolding run_def
    by (metis nth_mem set_takeWhileD takeWhile_nth)
  with d show ?thesis by blast
qed

text \<open>
  Where the rest of the pattern cannot start with a code unit of the class, giving back is of
  no use: only the longest run can lead to a match.
\<close>

lemma rmatch_Plus_det:
  assumes "\<And>c cs. p c \<Longrightarrow> rmatch its (c # cs) = None"
  shows "rmatch (Item p Plus # its) s =
           (if takeWhile p s = [] then None else rmatch its (dropWhile p s))"
proof -
  have "rmatch its (drop j s) = None" if "j < run p s" for j
    using drop_below_run [OF that] assms by auto
  then have "greedy 1 (run p s) (\<lambda>k. rmatch its (drop k s)) =
               (if 1 \<le> run p s then rmatch its (drop (run p s) s) else None)"
    by (rule greedy_only_top)
  then show ?thesis
    by (auto simp: drop_run) (auto simp: run_def Suc_le_eq)
qed

lemma rmatch_Star_det:
  assumes "\<And>c cs. p c \<Longrightarrow> rmatch its (c # cs) = None"
  shows "rmatch (Item p Star # its) s = rmatch its (dropWhile p s)"
proof -
  have "rmatch its (drop j s) = None" if "j < run p s" for j
    using drop_below_run [OF that] assms by auto
  then have "greedy 0 (run p s) (\<lambda>k. rmatch its (drop k s)) =
               (if 0 \<le> run p s then rmatch its (drop (run p s) s) else None)"
    by (rule greedy_only_top)
  then show ?thesis
    by (simp add: drop_run)
qed

lemma digit_not_x: "is_digit c \<Longrightarrow> \<not> is_ch CHR ''x'' c"
  by (auto simp: is_digit_def is_ch_def cu_def)

lemma digit_not_slash: "is_digit c \<Longrightarrow> \<not> is_ch CHR ''/'' c"
  by (auto simp: is_digit_def is_ch_def cu_def)

text \<open>The matcher on \<^verbatim>\<open>\/\d+x\d*\/\<close>, without backtracking.\<close>

lemma rmatch_thumbnail:
  "rmatch thumbnail_re s =
     (case s of
        [] \<Rightarrow> None
      | c # s1 \<Rightarrow>
          if \<not> is_ch CHR ''/'' c \<or> takeWhile is_digit s1 = [] then None
          else (case dropWhile is_digit s1 of
                  [] \<Rightarrow> None
                | c2 # s2 \<Rightarrow>
                    if \<not> is_ch CHR ''x'' c2 then None
                    else (case dropWhile is_digit s2 of
                            [] \<Rightarrow> None
                          | c3 # rest \<Rightarrow> if is_ch CHR ''/'' c3 then Some ([], rest) else None)))"
proof -
  have last: "rmatch [Item (is_ch CHR ''/'') Once] t =
      (case t of [] \<Rightarrow> None | c3 # rest \<Rightarrow> if is_ch CHR ''/'' c3 then Some ([], rest) else None)"
    for t
    by (simp add: rmatch_Once del: rmatch.simps(2) split: list.splits)
  have star: "rmatch [Item is_digit Star, Item (is_ch CHR ''/'') Once] t =
      rmatch [Item (is_ch CHR ''/'') Once] (dropWhile is_digit t)" for t
    by (rule rmatch_Star_det) (simp add: rmatch_Once digit_not_slash del: rmatch.simps(2))
  have x: "rmatch [Item (is_ch CHR ''x'') Once, Item is_digit Star, Item (is_ch CHR ''/'') Once] t =
      (case t of
         [] \<Rightarrow> None
       | c2 # s2 \<Rightarrow>
           if is_ch CHR ''x'' c2 then rmatch [Item is_digit Star, Item (is_ch CHR ''/'') Once] s2
           else None)" for t
    by (rule rmatch_Once)
  have plus: "rmatch [Item is_digit Plus, Item (is_ch CHR ''x'') Once, Item is_digit Star,
                      Item (is_ch CHR ''/'') Once] t =
      (if takeWhile is_digit t = [] then None
       else rmatch [Item (is_ch CHR ''x'') Once, Item is_digit Star, Item (is_ch CHR ''/'') Once]
              (dropWhile is_digit t))" for t
    by (rule rmatch_Plus_det) (simp add: rmatch_Once digit_not_x del: rmatch.simps(2))
  show ?thesis
    unfolding thumbnail_re_def
    by (subst rmatch_Once)
      (simp add: plus x star last del: rmatch.simps(2) dropWhile_eq_Nil_conv takeWhile_eq_Nil_iff
         split: list.split)
qed

lemma rsearch_SomeD:
  "rsearch its s = Some (pre, caps, rest) \<Longrightarrow>
     length pre \<le> length s \<and> take (length pre) s = pre \<and>
     rmatch its (drop (length pre) s) = Some (caps, rest) \<and>
     (\<forall>p<length pre. rmatch its (drop p s) = None)"
proof (induction s arbitrary: pre)
  case Nil
  then show ?case by auto
next
  case (Cons c cs)
  show ?case
  proof (cases "rmatch its (c # cs)")
    case None
    with Cons.prems obtain pre' where
      pre: "pre = c # pre'" and r: "rsearch its cs = Some (pre', caps, rest)" by auto
    from Cons.IH [OF r] None pre show ?thesis
      by (auto simp: less_Suc_eq_0_disj)
  next
    case (Some a)
    with Cons.prems show ?thesis by (auto split: prod.splits)
  qed
qed

lemma rsearch_None_iff:
  "rsearch its s = None \<longleftrightarrow> (\<forall>p\<le>length s. rmatch its (drop p s) = None)"
proof (induction s)
  case Nil
  then show ?case by auto
next
  case (Cons c cs)
  have "(\<forall>p<Suc (length (c # cs)). rmatch its (drop p (c # cs)) = None) \<longleftrightarrow>
        rmatch its (c # cs) = None \<and> (\<forall>p<Suc (length cs). rmatch its (drop p cs) = None)"
    by (subst All_less_Suc2) simp
  then have "(\<forall>p\<le>length (c # cs). rmatch its (drop p (c # cs)) = None) \<longleftrightarrow>
        rmatch its (c # cs) = None \<and> (\<forall>p\<le>length cs. rmatch its (drop p cs) = None)"
    by (simp only: less_Suc_eq_le)
  with Cons.IH show ?case
    by (cases "rmatch its (c # cs)") (auto split: prod.splits)
qed

lemma rsearch_append_None:
  assumes "\<And>p. p < length a \<Longrightarrow> rmatch its (drop p a @ b) = None"
    and "rsearch its b = None"
  shows "rsearch its (a @ b) = None"
  unfolding rsearch_None_iff
proof (intro allI impI)
  fix p assume "p \<le> length (a @ b)"
  show "rmatch its (drop p (a @ b)) = None"
  proof (cases "p < length a")
    case True
    with assms(1) show ?thesis by simp
  next
    case False
    with \<open>p \<le> length (a @ b)\<close> assms(2) show ?thesis
      by (simp add: rsearch_None_iff)
  qed
qed

text \<open>What a match of the thumbnail pattern looks like, in both directions.\<close>

lemma rmatch_thumbnail_Some:
  assumes "rmatch thumbnail_re s = Some (caps, rest)"
  shows "\<exists>ds es. s = js ''/'' @ ds @ js ''x'' @ es @ js ''/'' @ rest \<and> ds \<noteq> [] \<and>
           list_all is_digit ds \<and> list_all is_digit es \<and> caps = []"
proof -
  from assms obtain c s1 c2 s2 c3 where
    s: "s = c # s1" and c: "is_ch CHR ''/'' c" and ne: "takeWhile is_digit s1 \<noteq> []"
    and d1: "dropWhile is_digit s1 = c2 # s2" and c2: "is_ch CHR ''x'' c2"
    and d2: "dropWhile is_digit s2 = c3 # rest" and c3: "is_ch CHR ''/'' c3" and caps: "caps = []"
    unfolding rmatch_thumbnail
    by (auto split: list.splits if_splits simp del: dropWhile_eq_Nil_conv takeWhile_eq_Nil_iff)
  have "s1 = takeWhile is_digit s1 @ c2 # s2"
    using takeWhile_dropWhile_id [of is_digit s1] d1 by simp
  moreover have "s2 = takeWhile is_digit s2 @ c3 # rest"
    using takeWhile_dropWhile_id [of is_digit s2] d2 by simp
  ultimately have
    "s = js ''/'' @ takeWhile is_digit s1 @ js ''x'' @ takeWhile is_digit s2 @ js ''/'' @ rest"
    using s c c2 c3 by (simp add: js_def is_ch_def)
  moreover have "list_all is_digit (takeWhile is_digit s1)"
    "list_all is_digit (takeWhile is_digit s2)"
    by (auto simp: list_all_iff dest: set_takeWhileD)
  ultimately show ?thesis using ne caps by blast
qed

lemma rmatch_thumbnail_shape:
  assumes "ds \<noteq> []" "list_all is_digit ds" "list_all is_digit es"
  shows "rmatch thumbnail_re (js ''/'' @ ds @ js ''x'' @ es @ js ''/'' @ rest) = Some ([], rest)"
proof -
  have nx: "\<not> is_digit (cu CHR ''x'')" "\<not> is_digit (cu CHR ''/'')"
    by (simp_all add: is_digit_def cu_def)
  from assms have t1: "takeWhile is_digit (ds @ cu CHR ''x'' # t) = ds"
    and d1: "dropWhile is_digit (ds @ cu CHR ''x'' # t) = cu CHR ''x'' # t" for t
    using nx by (simp_all add: list_all_iff takeWhile_append2 dropWhile_append2)
  from assms have d2: "dropWhile is_digit (es @ cu CHR ''/'' # t) = cu CHR ''/'' # t" for t
    using nx by (simp_all add: list_all_iff dropWhile_append2)
  show ?thesis
    using assms(1) by (simp add: rmatch_thumbnail js_def t1 d1 d2 is_ch_def)
qed

lemma rsearch_thumbnail_Some:
  assumes "rsearch thumbnail_re url = Some (pre, caps, rest)"
  shows "\<exists>ds es. url = pre @ js ''/'' @ ds @ js ''x'' @ es @ js ''/'' @ rest \<and> ds \<noteq> [] \<and>
           list_all is_digit ds \<and> list_all is_digit es"
proof -
  from rsearch_SomeD [OF assms] have
    t: "take (length pre) url = pre"
    and m: "rmatch thumbnail_re (drop (length pre) url) = Some (caps, rest)"
    by simp_all
  from rmatch_thumbnail_Some [OF m] obtain ds es where
    d: "drop (length pre) url = js ''/'' @ ds @ js ''x'' @ es @ js ''/'' @ rest"
    and "ds \<noteq> []" "list_all is_digit ds" "list_all is_digit es" by blast
  moreover from t d have "url = pre @ js ''/'' @ ds @ js ''x'' @ es @ js ''/'' @ rest"
    by (metis append_take_drop_id)
  ultimately show ?thesis by blast
qed

lemma segment_found:
  assumes "ds \<noteq> []" "list_all is_digit ds" "list_all is_digit es"
  shows "rsearch thumbnail_re (a @ js ''/'' @ ds @ js ''x'' @ es @ js ''/'' @ b) \<noteq> None"
proof -
  have "rmatch thumbnail_re
          (drop (length a) (a @ js ''/'' @ ds @ js ''x'' @ es @ js ''/'' @ b)) \<noteq> None"
    using rmatch_thumbnail_shape [OF assms] by simp
  then show ?thesis
    unfolding rsearch_None_iff by (metis length_append le_add1)
qed

text \<open>Each of the four literal markers is an instance of the pattern.\<close>

lemma marker_shape:
  assumes "m \<in> set thumbnailPatterns"
  shows "\<exists>ds es. m = js ''/'' @ ds @ js ''x'' @ es @ js ''/'' \<and> ds \<noteq> [] \<and>
           list_all is_digit ds \<and> list_all is_digit es"
proof -
  have d: "list_all is_digit (js ''60'')" "list_all is_digit (js ''236'')"
    "list_all is_digit (js ''474'')" "list_all is_digit (js ''736'')" "list_all is_digit []"
    by (simp_all add: js_def cu_def is_digit_def)
  from assms consider "m = js ''/'' @ js ''60'' @ js ''x'' @ js ''60'' @ js ''/''"
    | "m = js ''/'' @ js ''236'' @ js ''x'' @ [] @ js ''/''"
    | "m = js ''/'' @ js ''474'' @ js ''x'' @ [] @ js ''/''"
    | "m = js ''/'' @ js ''736'' @ js ''x'' @ [] @ js ''/''"
    by (auto simp: thumbnailPatterns_def js_def)
  then show ?thesis
  proof cases
    case 1
    with d show ?thesis by (intro exI [of _ "js ''60''"]) (auto simp: js_def)
  next
    case 2
    with d show ?thesis by (intro exI [of _ "js ''236''"] exI [of _ "[]"]) (auto simp: js_def)
  next
    case 3
    with d show ?thesis by (intro exI [of _ "js ''474''"] exI [of _ "[]"]) (auto simp: js_def)
  next
    case 4
    with d show ?thesis by (intro exI [of _ "js ''736''"] exI [of _ "[]"]) (auto simp: js_def)
  qed
qed

lemma marker_found:
  assumes "m \<in> set thumbnailPatterns" "includes_str url m"
  shows "rsearch thumbnail_re url \<noteq> None"
proof -
  from assms(2) obtain a b where url: "url = a @ m @ b"
    by (auto simp: includes_str_def sublist_def)
  from marker_shape [OF assms(1)] obtain ds es where
    "m = js ''/'' @ ds @ js ''x'' @ es @ js ''/''" "ds \<noteq> []"
    "list_all is_digit ds" "list_all is_digit es"
    by blast
  with segment_found [of ds es a b] url show ?thesis by simp
qed

lemma needsFix_iff: "needsFix url \<longleftrightarrow> rsearch thumbnail_re url \<noteq> None"
  by (auto simp: needsFix_def list_ex_iff dest: marker_found)

lemma fix_image_url_eq:
  "fix_image_url url =
     (case rsearch thumbnail_re url of
        None \<Rightarrow> url
      | Some (pre, caps, rest) \<Rightarrow> pre @ js ''/originals/'' @ rest)"
  by (auto simp: fix_image_url_def needsFix_iff replace_first_def split: option.splits)

lemma fix_image_url_Nil: "fix_image_url [] = []"
  by (simp add: fix_image_url_eq rmatch_thumbnail)

lemma sanitize_result_eq:
  assumes "image_url result = Some url"
  shows "sanitize_result result = result\<lparr>image_url := Some (fix_image_url url)\<rparr>"
proof (cases "url = []")
  case True
  with assms have
    "result\<lparr>image_url := Some (fix_image_url url)\<rparr> = result\<lparr>image_url := image_url result\<rparr>"
    by (simp add: fix_image_url_Nil)
  with assms True show ?thesis by (simp add: sanitize_result_def)
next
  case False
  with assms show ?thesis by (simp add: sanitize_result_def)
qed

section \<open>The result sanitizer\<close>

text \<open>The first match is where a match starts and none starts before.\<close>

lemma rsearch_SomeI:
  assumes "rmatch its s = Some (caps, rest)"
    and "\<And>p. p < length a \<Longrightarrow> rmatch its (drop p (a @ s)) = None"
  shows "rsearch its (a @ s) = Some (a, caps, rest)"
  using assms(2)
proof (induction a)
  case Nil
  from assms(1) show ?case by (cases s) simp_all
next
  case (Cons c cs)
  from Cons.prems [of 0] have m: "rmatch its (c # cs @ s) = None" by simp
  have "rsearch its (cs @ s) = Some (cs, caps, rest)"
  proof (rule Cons.IH)
    fix p assume "p < length cs"
    with Cons.prems [of "Suc p"] show "rmatch its (drop p (cs @ s)) = None" by simp
  qed
  with m show ?case by simp
qed

lemma sanitize_nth:
  "i < length results \<Longrightarrow> sanitize results ! i = sanitize_result (results ! i)"
  by (simp add: sanitize_def)

text \<open>
  Claim C6, as stated: where the URL contains a literal marker, that marker is replaced. The
  test of line 296 finds the marker anywhere in the URL, but line 304 replaces the first match
  of the pattern, which may be another segment: in
  \<^verbatim>\<open>https://i.pinimg.com/1200x800/236x/a.jpg\<close> the marker \<^verbatim>\<open>/236x/\<close> is detected (no other marker
  occurs), \<^verbatim>\<open>/1200x800/\<close> is replaced, and the marker is still there.
\<close>

theorem marker_not_replaced:
  "includes_str (js ''https://i.pinimg.com/1200x800/236x/a.jpg'') (js ''/236x/'') \<and>
   filter (includes_str (js ''https://i.pinimg.com/1200x800/236x/a.jpg'')) thumbnailPatterns
     = [js ''/236x/''] \<and>
   sanitize
     [\<lparr>title = None, image_url = Some (js ''https://i.pinimg.com/1200x800/236x/a.jpg''), link = None\<rparr>]
     = [\<lparr>title = None, image_url = Some (js ''https://i.pinimg.com/originals/236x/a.jpg''),
         link = None\<rparr>] \<and>
   includes_str (js ''https://i.pinimg.com/originals/236x/a.jpg'') (js ''/236x/'') \<and>
   js ''https://i.pinimg.com/originals/236x/a.jpg'' \<noteq> js ''https://i.pinimg.com/1200x800/originals/a.jpg''"
proof -
  have "includes_str (js ''https://i.pinimg.com/1200x800/236x/a.jpg'') (js ''/236x/'')"
    by code_simp
  moreover have
    "filter (includes_str (js ''https://i.pinimg.com/1200x800/236x/a.jpg'')) thumbnailPatterns
     = [js ''/236x/'']"
    by code_simp
  moreover have "sanitize
     [\<lparr>title = None, image_url = Some (js ''https://i.pinimg.com/1200x800/236x/a.jpg''), link = None\<rparr>]
     = [\<lparr>title = None, image_url = Some (js ''https://i.pinimg.com/originals/236x/a.jpg''),
         link = None\<rparr>]"
    by code_simp
  moreover have "includes_str (js ''https://i.pinimg.com/originals/236x/a.jpg'') (js ''/236x/'')"
    by code_simp
  moreover have "js ''https://i.pinimg.com/originals/236x/a.jpg''
      \<noteq> js ''https://i.pinimg.com/1200x800/originals/a.jpg''"
    by (simp add: js_def)
  ultimately show ?thesis by (intro conjI)
qed

text \<open>
  Claim C6, amended: the sanitizing pass keeps the length and the order of the list, and for
  every result whose image URL contains one of the four literal markers or matches the
  pattern \<^verbatim>\<open>/<digits>x<optional digits>/\<close> it replaces the leftmost segment of that form by
  \<^verbatim>\<open>/originals/\<close> and changes no other code unit: the URL is \<open>pre\<close>, a slash, digits (at least
  one), \<^verbatim>\<open>x\<close>, digits, a slash, \<open>rest\<close>, no match of the pattern starts inside \<open>pre\<close>, and the
  new URL is \<open>pre\<close>, \<^verbatim>\<open>/originals/\<close>, \<open>rest\<close>. A literal marker that the URL contains is the
  segment replaced whenever no segment of that form starts to the left of it. Title and link
  are not touched. A result whose URL has no marker and no match, and a result without a URL,
  pass through unchanged.
\<close>

theorem sanitize_rewrites_segment:
  assumes "i < length results"
  shows "length (sanitize results) = length results \<and>
     (\<forall>url. image_url (results ! i) = Some url \<and>
        (list_ex (includes_str url) thumbnailPatterns \<or> rsearch thumbnail_re url \<noteq> None) \<longrightarrow>
        (\<exists>pre ds es rest.
           url = pre @ js ''/'' @ ds @ js ''x'' @ es @ js ''/'' @ rest \<and>
           ds \<noteq> [] \<and> list_all is_digit ds \<and> list_all is_digit es \<and>
           (\<forall>p<length pre. rmatch thumbnail_re (drop p url) = None) \<and>
           sanitize results ! i = (results ! i)\<lparr>image_url := Some (pre @ js ''/originals/'' @ rest)\<rparr>)) \<and>
     (\<forall>url a m b. image_url (results ! i) = Some url \<and> m \<in> set thumbnailPatterns \<and>
        url = a @ m @ b \<and> (\<forall>p<length a. rmatch thumbnail_re (drop p url) = None) \<longrightarrow>
        sanitize results ! i = (results ! i)\<lparr>image_url := Some (a @ js ''/originals/'' @ b)\<rparr>) \<and>
     (\<forall>url. image_url (results ! i) = Some url \<and>
        \<not> (list_ex (includes_str url) thumbnailPatterns \<or> rsearch thumbnail_re url \<noteq> None) \<longrightarrow>
        sanitize results ! i = results ! i) \<and>
     (image_url (results ! i) = None \<longrightarrow> sanitize results ! i = results ! i)"
proof (intro conjI allI impI)
  show "length (sanitize results) = length results" by (simp add: sanitize_def)
next
  fix url
  assume a: "image_url (results ! i) = Some url \<and>
        (list_ex (includes_str url) thumbnailPatterns \<or> rsearch thumbnail_re url \<noteq> None)"
  then have u: "image_url (results ! i) = Some url" by blast
  from a have "rsearch thumbnail_re url \<noteq> None"
    by (auto simp: list_ex_iff dest: marker_found)
  then obtain pre caps rest where s: "rsearch thumbnail_re url = Some (pre, caps, rest)"
    by (cases "rsearch thumbnail_re url") auto
  from rsearch_thumbnail_Some [OF s] obtain ds es where
    "url = pre @ js ''/'' @ ds @ js ''x'' @ es @ js ''/'' @ rest" "ds \<noteq> []"
    "list_all is_digit ds" "list_all is_digit es" by blast
  moreover from rsearch_SomeD [OF s] have "\<forall>p<length pre. rmatch thumbnail_re (drop p url) = None"
    by simp
  moreover from s have
    "sanitize results ! i = (results ! i)\<lparr>image_url := Some (pre @ js ''/originals/'' @ rest)\<rparr>"
    by (simp add: sanitize_nth [OF assms] sanitize_result_eq [OF u] fix_image_url_eq)
  ultimately show "\<exists>pre ds es rest.
      url = pre @ js ''/'' @ ds @ js ''x'' @ es @ js ''/'' @ rest \<and>
      ds \<noteq> [] \<and> list_all is_digit ds \<and> list_all is_digit es \<and>
      (\<forall>p<length pre. rmatch thumbnail_re (drop p url) = None) \<and>
      sanitize results ! i = (results ! i)\<lparr>image_url := Some (pre @ js ''/originals/'' @ rest)\<rparr>"
    by blast
next
  fix url a m b
  assume h: "image_url (results ! i) = Some url \<and> m \<in> set thumbnailPatterns \<and>
        url = a @ m @ b \<and> (\<forall>p<length a. rmatch thumbnail_re (drop p url) = None)"
  then have u: "image_url (results ! i) = Some url" and m: "m \<in> set thumbnailPatterns"
    and url: "url = a @ m @ b"
    and left: "\<And>p. p < length a \<Longrightarrow> rmatch thumbnail_re (drop p (a @ m @ b)) = None"
    by blast+
  from marker_shape [OF m] obtain ds es where
    ms: "m = js ''/'' @ ds @ js ''x'' @ es @ js ''/''" and "ds \<noteq> []"
    "list_all is_digit ds" "list_all is_digit es"
    by blast
  from rmatch_thumbnail_shape [OF this(2-4), of b] have "rmatch thumbnail_re (m @ b) = Some ([], b)"
    by (simp add: ms)
  from rsearch_SomeI [OF this left] have "rsearch thumbnail_re url = Some (a, [], b)"
    by (simp add: url)
  then show "sanitize results ! i = (results ! i)\<lparr>image_url := Some (a @ js ''/originals/'' @ b)\<rparr>"
    by (simp add: sanitize_nth [OF assms] sanitize_result_eq [OF u] fix_image_url_eq)
next
  fix url
  assume a: "image_url (results ! i) = Some url \<and>
        \<not> (list_ex (includes_str url) thumbnailPatterns \<or> rsearch thumbnail_re url \<noteq> None)"
  then have u: "image_url (results ! i) = Some url" by blast
  from a have "rsearch thumbnail_re url = None" by blast
  then show "sanitize results ! i = results ! i"
    using u by (simp add: sanitize_nth [OF assms] sanitize_result_eq [OF u] fix_image_url_eq)
next
  assume "image_url (results ! i) = None"
  then show "sanitize results ! i = results ! i"
    by (simp add: sanitize_nth [OF assms] sanitize_result_def)
qed

text \<open>
  The example of the specification, \<^verbatim>\<open>https://example.com/236x/abc.jpg\<close>, where the marker
  \<^verbatim>\<open>/236x/\<close> is the leftmost segment; a URL without a thumbnail segment; and a result without
  a URL.
\<close>

theorem sanitize_rewrites_segment_witness:
  "js ''/236x/'' \<in> set thumbnailPatterns \<and>
   js ''https://example.com/236x/abc.jpg'' = js ''https://example.com'' @ js ''/236x/'' @ js ''abc.jpg'' \<and>
   rsearch thumbnail_re (js ''https://example.com/236x/abc.jpg'')
     = Some (js ''https://example.com'', [], js ''abc.jpg'') \<and>
   sanitize
     [\<lparr>title = None, image_url = None, link = None\<rparr>,
      \<lparr>title = None, image_url = Some (js ''https://example.com/236x/abc.jpg''), link = None\<rparr>,
      \<lparr>title = None, image_url = Some (js ''https://example.com/photos/abc.jpg''), link = None\<rparr>] ! 1
     = \<lparr>title = None, image_url = Some (js ''https://example.com/originals/abc.jpg''), link = None\<rparr> \<and>
   sanitize
     [\<lparr>title = None, image_url = None, link = None\<rparr>,
      \<lparr>title = None, image_url = Some (js ''https://example.com/236x/abc.jpg''), link = None\<rparr>,
      \<lparr>title = None, image_url = Some (js ''https://example.com/photos/abc.jpg''), link = None\<rparr>] ! 2
     = \<lparr>title = None, image_url = Some (js ''https://example.com/photos/abc.jpg''), link = None\<rparr> \<and>
   sanitize
     [\<lparr>title = None, image_url = None, link = None\<rparr>,
      \<lparr>title = None, image_url = Some (js ''https://example.com/236x/abc.jpg''), link = None\<rparr>,
      \<lparr>title = None, image_url = Some (js ''https://example.com/photos/abc.jpg''), link = None\<rparr>] ! 0
     = \<lparr>title = None, image_url = None, link = None\<rparr>"
proof -
  let ?r0 = "\<lparr>title = None, image_url = None, link = None\<rparr>"
  let ?r1 = "\<lparr>title = None, image_url = Some (js ''https://example.com/236x/abc.jpg''), link = None\<rparr>"
  let ?r2 = "\<lparr>title = None, image_url = Some (js ''https://example.com/photos/abc.jpg''), link = None\<rparr>"
  let ?rs = "[?r0, ?r1, ?r2]"
  have m: "js ''/236x/'' \<in> set thumbnailPatterns" by (simp add: thumbnailPatterns_def)
  have u: "js ''https://example.com/236x/abc.jpg''
      = js ''https://example.com'' @ js ''/236x/'' @ js ''abc.jpg''"
    by (simp add: js_def)
  have s: "rsearch thumbnail_re (js ''https://example.com/236x/abc.jpg'')
      = Some (js ''https://example.com'', [], js ''abc.jpg'')"
    by code_simp
  from rsearch_SomeD [OF s] have left:
    "\<forall>p<length (js ''https://example.com'').
        rmatch thumbnail_re (drop p (js ''https://example.com/236x/abc.jpg'')) = None"
    by blast
  have n: "\<not> (list_ex (includes_str (js ''https://example.com/photos/abc.jpg'')) thumbnailPatterns
      \<or> rsearch thumbnail_re (js ''https://example.com/photos/abc.jpg'') \<noteq> None)"
    by code_simp
  have o: "js ''https://example.com'' @ js ''/originals/'' @ js ''abc.jpg''
      = js ''https://example.com/originals/abc.jpg''"
    by (simp add: js_def)
  have "sanitize ?rs ! 1 = (?rs ! 1)\<lparr>image_url :=
      Some (js ''https://example.com'' @ js ''/originals/'' @ js ''abc.jpg'')\<rparr>"
    by (rule sanitize_rewrites_segment [where results = ?rs and i = 1, THEN conjunct2,
          THEN conjunct2, THEN conjunct1, rule_format,
          where url = "js ''https://example.com/236x/abc.jpg''" and m = "js ''/236x/''"])
       (use m u left in simp_all)
  then have "sanitize ?rs ! 1 =
      \<lparr>title = None, image_url = Some (js ''https://example.com/originals/abc.jpg''), link = None\<rparr>"
    by (simp add: o)
  moreover have "sanitize ?rs ! 2 = ?rs ! 2"
    by (rule sanitize_rewrites_segment [where results = ?rs and i = 2, THEN conjunct2,
          THEN conjunct2, THEN conjunct2, THEN conjunct1, rule_format,
          where url = "js ''https://example.com/photos/abc.jpg''"])
       (use n in simp_all)
  then have "sanitize ?rs ! 2 = ?r2" by simp
  moreover have "sanitize ?rs ! 0 = ?rs ! 0"
    by (rule sanitize_rewrites_segment [where results = ?rs and i = 0, THEN conjunct2,
          THEN conjunct2, THEN conjunct2, THEN conjunct2, rule_format])
       simp_all
  then have "sanitize ?rs ! 0 = ?r0" by simp
  ultimately show ?thesis using m u s by (intro conjI)
qed

subsection \<open>Idempotence\<close>

text \<open>
  Up to the closing slash of a text \<open>w\<close> that is not empty, whether a match starts at the head
  of \<open>w\<close> does not depend on what comes after that slash.
\<close>

lemma rmatch_thumbnail_upto_slash:
  assumes "w \<noteq> []"
  shows "(rmatch thumbnail_re (w @ cu CHR ''/'' # t) = None) =
         (rmatch thumbnail_re (w @ cu CHR ''/'' # t') = None)"
proof -
  have nd: "\<not> is_digit (cu CHR ''/'')" by (simp add: is_digit_def cu_def)
  have nx: "\<not> is_ch CHR ''x'' (cu CHR ''/'')" by (simp add: is_ch_def cu_def)
  have sl: "is_ch CHR ''/'' (cu CHR ''/'')" by (simp add: is_ch_def)
  from assms obtain c w1 where w: "w = c # w1" by (cases w) auto
  show ?thesis
  proof (cases "\<forall>x\<in>set w1. is_digit x")
    case True
    have "dropWhile is_digit (w1 @ cu CHR ''/'' # u) = cu CHR ''/'' # u" for u
      using True nd by (simp add: dropWhile_append2)
    then have "rmatch thumbnail_re (w @ cu CHR ''/'' # u) = None" for u
      using nx by (simp add: w rmatch_thumbnail)
    then show ?thesis by simp
  next
    case False
    then obtain c2 w2 where d1: "dropWhile is_digit w1 = c2 # w2"
      by (cases "dropWhile is_digit w1") auto
    have t1: "takeWhile is_digit (w1 @ ys) = takeWhile is_digit w1" for ys
      using False by (auto simp: takeWhile_append)
    have d1': "dropWhile is_digit (w1 @ ys) = c2 # w2 @ ys" for ys
      using False d1 by (auto simp: dropWhile_append)
    show ?thesis
    proof (cases "\<forall>x\<in>set w2. is_digit x")
      case True
      have "dropWhile is_digit (w2 @ cu CHR ''/'' # u) = cu CHR ''/'' # u" for u
        using True nd by (simp add: dropWhile_append2)
      then have "(rmatch thumbnail_re (w @ cu CHR ''/'' # u) = None) =
                 (\<not> is_ch CHR ''/'' c \<or> takeWhile is_digit w1 = [] \<or> \<not> is_ch CHR ''x'' c2)" for u
        using sl by (simp add: w rmatch_thumbnail t1 d1' del: takeWhile_eq_Nil_iff)
      then show ?thesis by simp
    next
      case f2: False
      then obtain c3 w3 where d2: "dropWhile is_digit w2 = c3 # w3"
        by (cases "dropWhile is_digit w2") auto
      have "dropWhile is_digit (w2 @ ys) = c3 # w3 @ ys" for ys
        using f2 d2 by (auto simp: dropWhile_append)
      then have "(rmatch thumbnail_re (w @ cu CHR ''/'' # u) = None) =
                 (\<not> is_ch CHR ''/'' c \<or> takeWhile is_digit w1 = [] \<or> \<not> is_ch CHR ''x'' c2
                   \<or> \<not> is_ch CHR ''/'' c3)" for u
        by (simp add: w rmatch_thumbnail t1 d1' del: takeWhile_eq_Nil_iff)
      then show ?thesis by simp
    qed
  qed
qed

lemma rsearch_originals:
  "(rsearch thumbnail_re (js ''/originals'' @ t) = None) = (rsearch thumbnail_re t = None)"
  by (simp add: js_def cu_def rmatch_thumbnail is_ch_def is_digit_def)

lemma no_match_after_fix:
  assumes "rsearch thumbnail_re url = Some (pre, caps, rest)"
    and "rsearch thumbnail_re (js ''/'' @ rest) = None"
  shows "rsearch thumbnail_re (pre @ js ''/originals/'' @ rest) = None"
proof -
  from rsearch_thumbnail_Some [OF assms(1)] obtain ds es where
    url: "url = pre @ js ''/'' @ ds @ js ''x'' @ es @ js ''/'' @ rest" by blast
  have o: "js ''/originals/'' @ rest = js ''/originals'' @ js ''/'' @ rest"
    by (simp add: js_def)
  have "rsearch thumbnail_re (pre @ (js ''/originals/'' @ rest)) = None"
  proof (rule rsearch_append_None)
    show "rsearch thumbnail_re (js ''/originals/'' @ rest) = None"
      unfolding o rsearch_originals by (rule assms(2))
  next
    fix p assume p: "p < length pre"
    then have ne: "drop p pre \<noteq> []" by simp
    from rsearch_SomeD [OF assms(1)] p have "rmatch thumbnail_re (drop p url) = None" by simp
    with p url have
      "rmatch thumbnail_re (drop p pre @ cu CHR ''/'' # (ds @ js ''x'' @ es @ js ''/'' @ rest)) = None"
      by (simp add: js_def)
    then have "rmatch thumbnail_re (drop p pre @ cu CHR ''/'' # (js ''originals/'' @ rest)) = None"
      using rmatch_thumbnail_upto_slash [OF ne] by blast
    then show "rmatch thumbnail_re (drop p pre @ js ''/originals/'' @ rest) = None"
      by (simp add: js_def)
  qed
  then show ?thesis by simp
qed

lemma fix_image_url_idem:
  assumes "single_segment url"
  shows "fix_image_url (fix_image_url url) = fix_image_url url"
proof (cases "rsearch thumbnail_re url")
  case None
  then show ?thesis by (simp add: fix_image_url_eq)
next
  case (Some a)
  then obtain pre caps rest where s: "rsearch thumbnail_re url = Some (pre, caps, rest)"
    by (cases a) auto
  with assms have "rsearch thumbnail_re (js ''/'' @ rest) = None"
    by (simp add: single_segment_def)
  from no_match_after_fix [OF s this] s show ?thesis
    by (simp add: fix_image_url_eq)
qed

text \<open>
  Claim C2, as stated: sanitizing twice gives the same list as sanitizing once, for every
  list of results. The source replaces the first match only (the pattern of line 304 has no
  flag \<^verbatim>\<open>g\<close>), so a URL with two thumbnail segments is rewritten once by each pass: the first
  pass leaves \<^verbatim>\<open>/originals/474x/\<close>, the second \<^verbatim>\<open>/originals/originals/\<close>.
\<close>

theorem sanitize_not_idempotent:
  "sanitize [\<lparr>title = None, image_url = Some (js ''https://i.pinimg.com/236x/474x/a.jpg''), link = None\<rparr>]
     = [\<lparr>title = None, image_url = Some (js ''https://i.pinimg.com/originals/474x/a.jpg''), link = None\<rparr>] \<and>
   sanitize (sanitize
       [\<lparr>title = None, image_url = Some (js ''https://i.pinimg.com/236x/474x/a.jpg''), link = None\<rparr>])
     = [\<lparr>title = None, image_url = Some (js ''https://i.pinimg.com/originals/originals/a.jpg''),
         link = None\<rparr>] \<and>
   sanitize (sanitize
       [\<lparr>title = None, image_url = Some (js ''https://i.pinimg.com/236x/474x/a.jpg''), link = None\<rparr>])
     \<noteq> sanitize
       [\<lparr>title = None, image_url = Some (js ''https://i.pinimg.com/236x/474x/a.jpg''), link = None\<rparr>]"
proof -
  let ?r = "\<lparr>title = None, image_url = Some (js ''https://i.pinimg.com/236x/474x/a.jpg''), link = None\<rparr>"
  have once: "sanitize [?r] =
      [\<lparr>title = None, image_url = Some (js ''https://i.pinimg.com/originals/474x/a.jpg''), link = None\<rparr>]"
    by code_simp
  have twice: "sanitize (sanitize [?r]) =
      [\<lparr>title = None, image_url = Some (js ''https://i.pinimg.com/originals/originals/a.jpg''),
        link = None\<rparr>]"
    by code_simp
  have "js ''https://i.pinimg.com/originals/originals/a.jpg'' \<noteq>
        js ''https://i.pinimg.com/originals/474x/a.jpg''"
    by (simp add: js_def)
  with once twice show ?thesis by simp
qed

text \<open>
  Claim C2, amended: sanitizing twice gives the same list as sanitizing once for every list
  of results in which each image URL holds at most one thumbnail segment.
\<close>

theorem sanitize_idempotent_single_segment:
  assumes "\<forall>r\<in>set results. \<forall>url. image_url r = Some url \<longrightarrow> single_segment url"
  shows "sanitize (sanitize results) = sanitize results"
proof -
  have "sanitize_result (sanitize_result r) = sanitize_result r" if "r \<in> set results" for r
  proof (cases "image_url r")
    case None
    then show ?thesis by (simp add: sanitize_result_def)
  next
    case (Some url)
    with assms that have "single_segment url" by blast
    then have "fix_image_url (fix_image_url url) = fix_image_url url"
      by (rule fix_image_url_idem)
    with Some show ?thesis
      by (simp add: sanitize_result_eq [of _ "fix_image_url url"] sanitize_result_eq [OF Some])
  qed
  then show ?thesis by (simp add: sanitize_def)
qed

theorem sanitize_idempotent_single_segment_witness:
  "single_segment (js ''https://example.com/236x/abc.jpg'') \<and>
   sanitize (sanitize
     [\<lparr>title = None, image_url = Some (js ''https://example.com/236x/abc.jpg''), link = None\<rparr>]) =
   sanitize
     [\<lparr>title = None, image_url = Some (js ''https://example.com/236x/abc.jpg''), link = None\<rparr>]"
proof -
  let ?r = "\<lparr>title = None, image_url = Some (js ''https://example.com/236x/abc.jpg''), link = None\<rparr>"
  have s: "single_segment (js ''https://example.com/236x/abc.jpg'')" by code_simp
  then have "\<forall>r\<in>set [?r]. \<forall>url. image_url r = Some url \<longrightarrow> single_segment url" by simp
  from sanitize_idempotent_single_segment [OF this] s show ?thesis by simp
qed

section \<open>The content of the response\<close>

lemma push_result_eq:
  "push_result n result index contentItems =
     contentItems @ result_blocks index result @ (if index < n - 1 then [separator_item] else [])"
  by (simp add: push_result_def result_blocks_def)

lemma with_separators_Cons:
  "with_separators (b # bs) = b @ (if bs = [] then [] else separator_item # with_separators bs)"
  by (cases bs) auto

text \<open>The loop, started at any index \<open>i\<close> with any list of blocks already pushed.\<close>

lemma forEach_results_eq:
  "forEach_results (int (i + length rs)) rs (int i) acc =
     acc @ with_separators (map (\<lambda>(j, r). result_blocks (int j) r) (enumerate i rs))"
proof (induction rs arbitrary: i acc)
  case Nil
  then show ?case by simp
next
  case (Cons r rs)
  let ?n = "int (i + length (r # rs))"
  let ?W = "with_separators (map (\<lambda>(j, r). result_blocks (int j) r) (enumerate (Suc i) rs))"
  have n: "?n = int (Suc i + length rs)" by simp
  have sep: "(int i < ?n - 1) = (rs \<noteq> [])" by auto
  have "forEach_results ?n (r # rs) (int i) acc =
          forEach_results (int (Suc i + length rs)) rs (int (Suc i)) (push_result ?n r (int i) acc)"
    by (simp add: add.commute)
  also have "\<dots> = push_result ?n r (int i) acc @ ?W"
    by (rule Cons.IH)
  also have "\<dots> = acc @ result_blocks (int i) r @ (if rs \<noteq> [] then [separator_item] else []) @ ?W"
    unfolding push_result_eq sep by simp
  also have "\<dots> = acc @ with_separators (map (\<lambda>(j, r). result_blocks (int j) r) (enumerate i (r # rs)))"
    by (cases rs) (simp_all add: with_separators_Cons)
  finally show ?case .
qed

text \<open>
  Claim C9, as stated: the original-page block of a result is present if and only if the
  result's link differs from its image URL. The test of line 332 asks first that the link is
  there (\<^verbatim>\<open>result.link && ...\<close>): a result without a link has a link that differs from its
  image URL, and it gets a title block and a link block only.
\<close>

theorem original_page_needs_a_link:
  "link \<lparr>title = Some (js ''Sunset''), image_url = Some (js ''https://i.pinimg.com/originals/ab/cd.jpg''),
         link = None\<rparr>
     \<noteq> image_url \<lparr>title = Some (js ''Sunset''),
         image_url = Some (js ''https://i.pinimg.com/originals/ab/cd.jpg''), link = None\<rparr> \<and>
   build_content (js ''sunset'')
     [\<lparr>title = Some (js ''Sunset''), image_url = Some (js ''https://i.pinimg.com/originals/ab/cd.jpg''),
       link = None\<rparr>]
     = [text_item (js ''Found 1 images related to \"sunset\" on Pinterest''),
        text_item (js ''Image 1: Sunset''),
        text_item (js ''Link: https://i.pinimg.com/originals/ab/cd.jpg'')]"
  by (simp add: build_content_def push_result_def has_original_page_def summary_item_def
      title_item_def link_item_def or_else_def digits_of.simps [of 1] js_def cu_def)

text \<open>
  Claim C9, amended: the blocks of the response are, in this order, one summary block, then
  for each result in list order a title block, a link block, and an original-page block that
  is present if and only if the result has a link that is not empty and differs from its image
  URL; a separator block stands between two neighbouring results and none after the last.
\<close>

theorem build_content_layout:
  "build_content kw results =
     summary_item (int (length results)) kw #
     with_separators
       (map (\<lambda>(index, result). result_blocks (int index) result) (enumerate 0 results)) \<and>
   result_blocks index result =
     [title_item index result, link_item result] @
     (if has_original_page result then [original_page_item result] else []) \<and>
   has_original_page result =
     (\<exists>l. link result = Some l \<and> l \<noteq> [] \<and> image_url result \<noteq> Some l)"
proof (intro conjI)
  show "build_content kw results =
     summary_item (int (length results)) kw #
     with_separators
       (map (\<lambda>(index, result). result_blocks (int index) result) (enumerate 0 results))"
    using forEach_results_eq [of 0 results] by (simp add: build_content_def)
  show "result_blocks index result =
     [title_item index result, link_item result] @
     (if has_original_page result then [original_page_item result] else [])"
    by (simp add: result_blocks_def)
  show "has_original_page result =
     (\<exists>l. link result = Some l \<and> l \<noteq> [] \<and> image_url result \<noteq> Some l)"
    by (cases "link result") (auto simp: has_original_page_def)
qed

text \<open>
  Two results: the first has a page of its own, the second has a link equal to its image URL.
\<close>

theorem build_content_layout_witness:
  "build_content (js ''cats'')
     [\<lparr>title = Some (js ''A''), image_url = Some (js ''u1''), link = Some (js ''p1'')\<rparr>,
      \<lparr>title = None, image_url = Some (js ''u2''), link = Some (js ''u2'')\<rparr>]
   = [text_item (js ''Found 2 images related to \"cats\" on Pinterest''),
      text_item (js ''Image 1: A''),
      text_item (js ''Link: u1''),
      text_item (js ''Original page: p1''),
      text_item (js ''---''),
      text_item (js ''Image 2: No title''),
      text_item (js ''Link: u2'')]"
proof -
  let ?rs = "[\<lparr>title = Some (js ''A''), image_url = Some (js ''u1''), link = Some (js ''p1'')\<rparr>,
      \<lparr>title = None, image_url = Some (js ''u2''), link = Some (js ''u2'')\<rparr>]"
  have "build_content (js ''cats'') ?rs =
     summary_item (int (length ?rs)) (js ''cats'') #
     with_separators
       (map (\<lambda>(index, result). result_blocks (int index) result) (enumerate 0 ?rs))"
    by (rule build_content_layout [THEN conjunct1])
  also have "\<dots> = [text_item (js ''Found 2 images related to \"cats\" on Pinterest''),
      text_item (js ''Image 1: A''),
      text_item (js ''Link: u1''),
      text_item (js ''Original page: p1''),
      text_item (js ''---''),
      text_item (js ''Image 2: No title''),
      text_item (js ''Link: u2'')]"
    by (simp add: result_blocks_def has_original_page_def summary_item_def title_item_def
        link_item_def original_page_item_def separator_item_def or_else_def
        digits_of.simps [of 1] digits_of.simps [of 2] js_def cu_def)
  finally show ?thesis .
qed

section \<open>The argument normalizer\<close>

lemma apply_defaults_simps:
  "keyword (apply_defaults q) = (if keyword q = [] then DEFAULT_SEARCH_KEYWORD else keyword q)"
  "limit (apply_defaults q) =
     (if isNaN (limit q) \<or> le_zero (limit q) then DEFAULT_SEARCH_LIMIT else limit q)"
  "headless (apply_defaults q) = headless q"
  by (simp_all add: apply_defaults_def Let_def)

lemma limit_positive_aux: "\<not> isNaN x \<Longrightarrow> \<not> le_zero x \<Longrightarrow> is_positive x"
  by (cases x) (auto simp: isNaN_def le_zero_def is_positive_def)

lemma typeof_Str_not_object: "typeof (Str s) \<noteq> js ''object''"
  by (simp add: js_def cu_def)

lemma typeof_number: "typeof v = js ''number'' \<longleftrightarrow> (\<exists>x. v = Num x)"
  by (cases v) (simp_all add: js_def cu_def)


subsection \<open>When \<^verbatim>\<open>String\<close> returns\<close>

lemma those_map_Some:
  "(\<exists>ys. those (map f xs) = Some ys) \<longleftrightarrow> (\<forall>x\<in>set xs. \<exists>y. f x = Some y)"
  by (induction xs) (auto split: option.splits)

lemma ToString_printable: "(\<exists>t. ToString h v = Some t) \<longleftrightarrow> printable v"
proof (induction v)
  case (Arr xs)
  have "(\<exists>t. ToString h (Arr xs) = Some t) \<longleftrightarrow>
        (\<exists>ys. those (map (\<lambda>x. if x = Undefined \<or> x = Null then Some [] else ToString h x) xs)
           = Some ys)"
    by auto
  also have "\<dots> \<longleftrightarrow>
      (\<forall>x\<in>set xs. \<exists>y. (if x = Undefined \<or> x = Null then Some [] else ToString h x) = Some y)"
    by (rule those_map_Some)
  also have "\<dots> \<longleftrightarrow> (\<forall>x\<in>set xs. printable x)"
    using Arr by auto
  finally show ?case by (simp add: list_all_iff)
qed auto

lemma limit_of_value_printable: "printable v \<Longrightarrow> \<exists>x. limit_of_value h v = Some x"
  using ToString_printable [of h v] by (auto simp: limit_of_value_def split: jsval.splits)

subsection \<open>What is read from a mapping\<close>

lemma extract_args_Obj:
  "extract_args h (Obj kvs) =
     from_object h (Obj kvs)
       \<lparr>keyword = [], limit = DEFAULT_SEARCH_LIMIT, headless = DEFAULT_HEADLESS_MODE\<rparr>"
  by (simp add: extract_args_def)

lemma keyword_from_object_Obj:
  "keyword_from_object h (Obj kvs) q =
     (case map_of kvs (js ''keyword'') of
        Some (Str s) \<Rightarrow> Some (q\<lparr>keyword := trim s\<rparr>)
      | _ \<Rightarrow>
         (case map_of kvs (js ''`keyword`'') of
            None \<Rightarrow> Some q
          | Some v \<Rightarrow> (case ToString h v of None \<Rightarrow> None | Some t \<Rightarrow> Some (q\<lparr>keyword := trim t\<rparr>))))"
  by (simp add: keyword_from_object_def has_property_def get_property_def
      split: option.splits jsval.splits)

lemma limit_from_object_Obj:
  "limit_from_object h (Obj kvs) q =
     (let backtick =
            (case map_of kvs (js ''`limit`'') of
               None \<Rightarrow> Some q
             | Some w \<Rightarrow> (case limit_of_value h w of None \<Rightarrow> None | Some x \<Rightarrow> Some (q\<lparr>limit := x\<rparr>)))
      in case map_of kvs (js ''limit'') of
           None \<Rightarrow> backtick
         | Some v \<Rightarrow>
            (case v of
               Num x \<Rightarrow> Some (q\<lparr>limit := x\<rparr>)
             | _ \<Rightarrow>
                (case ToString h v of
                   None \<Rightarrow> None
                 | Some t \<Rightarrow>
                     if isNaN (parseInt t None) then backtick
                     else Some (q\<lparr>limit := parseInt t (Some 10)\<rparr>))))"
proof (cases "map_of kvs (js ''limit'')")
  case None
  then show ?thesis
    by (simp add: limit_from_object_def limit_is_usable_def has_property_def get_property_def
        Let_def split: option.splits)
next
  case (Some v)
  show ?thesis
  proof (cases "\<exists>x. v = Num x")
    case True
    with Some show ?thesis
      by (auto simp: limit_from_object_def limit_is_usable_def has_property_def get_property_def
          limit_of_value_def Let_def)
  next
    case False
    then have ty: "typeof v \<noteq> js ''number''" by (simp add: typeof_number)
    from False have lv: "limit_of_value h v =
        (case ToString h v of None \<Rightarrow> None | Some s \<Rightarrow> Some (parseInt s (Some 10)))"
      by (cases v) (simp_all add: limit_of_value_def)
    from False have cv: "(case v of Num x \<Rightarrow> f x | _ \<Rightarrow> g) = g" for f and g :: "CanonicalQuery option"
      by (cases v) simp_all
    from Some ty show ?thesis
      by (simp add: limit_from_object_def limit_is_usable_def has_property_def get_property_def
          Let_def lv cv split: option.splits)
  qed
qed

lemma headless_from_object_Obj:
  "headless_from_object (Obj kvs) q =
     (case map_of kvs (js ''headless'') of
        Some (Bool b) \<Rightarrow> q\<lparr>headless := b\<rparr>
      | _ \<Rightarrow>
         (case map_of kvs (js ''`headless`'') of
            None \<Rightarrow> q
          | Some v \<Rightarrow> q\<lparr>headless := ToBoolean v\<rparr>))"
  by (simp add: headless_from_object_def has_property_def get_property_def
      split: option.splits jsval.splits)

lemma keyword_from_object_fields:
  assumes "keyword_from_object h args q = Some q'"
  shows "limit q' = limit q" "headless q' = headless q"
  using assms
  by (auto simp: keyword_from_object_def split: option.splits jsval.splits bool.splits if_splits)

lemma limit_from_object_fields:
  assumes "limit_from_object h args q = Some q'"
  shows "keyword q' = keyword q" "headless q' = headless q"
  using assms
  by (auto simp: limit_from_object_def Let_def split: option.splits bool.splits if_splits)

lemma headless_from_object_fields [simp]:
  "keyword (headless_from_object args q) = keyword q"
  "limit (headless_from_object args q) = limit q"
  by (auto simp: headless_from_object_def split: jsval.splits bool.splits)

lemma from_objectE:
  assumes "from_object h args q = Some r"
  obtains q1 q2 where "keyword_from_object h args q = Some q1"
    and "limit_from_object h args q1 = Some q2"
    and "r = headless_from_object args q2"
  using assms by (auto simp: from_object_def split: option.splits)

lemma from_object_fields:
  assumes "from_object h args q = Some r"
    and "keyword_from_object h args q = Some q1"
    and "limit_from_object h args q1 = Some q2"
  shows "keyword r = keyword q1" "limit r = limit q2" "headless r = headless (headless_from_object args q)"
proof -
  from assms have r: "r = headless_from_object args q2" by (simp add: from_object_def)
  from limit_from_object_fields [OF assms(3)] keyword_from_object_fields [OF assms(2)]
  have f: "keyword q2 = keyword q1" "headless q2 = headless q"
    by simp_all
  show "keyword r = keyword q1" "limit r = limit q2" by (simp_all add: r f)
  from f(2) show "headless r = headless (headless_from_object args q)"
    by (simp add: r headless_from_object_def split: jsval.splits bool.splits)
qed

text \<open>A mapping whose values can be printed gives a query.\<close>

lemma keyword_from_object_convertible:
  assumes "printable_at kvs (js ''`keyword`'')"
  shows "\<exists>q'. keyword_from_object h (Obj kvs) q = Some q'"
proof (cases "map_of kvs (js ''`keyword`'')")
  case None
  then show ?thesis
    by (simp add: keyword_from_object_Obj split: option.splits jsval.splits)
next
  case (Some v)
  with assms have "printable v" by (simp add: printable_at_def)
  then obtain t where "ToString h v = Some t" using ToString_printable [of h v] by blast
  with Some show ?thesis
    by (simp add: keyword_from_object_Obj split: option.splits jsval.splits)
qed

lemma limit_from_object_convertible:
  assumes "printable_at kvs (js ''limit'')" and "printable_at kvs (js ''`limit`'')"
  shows "\<exists>q'. limit_from_object h (Obj kvs) q = Some q'"
proof -
  have b: "\<exists>q'. (case map_of kvs (js ''`limit`'') of
               None \<Rightarrow> Some q
             | Some w \<Rightarrow> (case limit_of_value h w of None \<Rightarrow> None | Some x \<Rightarrow> Some (q\<lparr>limit := x\<rparr>)))
           = Some q'"
  proof (cases "map_of kvs (js ''`limit`'')")
    case None
    then show ?thesis by simp
  next
    case (Some w)
    with assms(2) have "printable w" by (simp add: printable_at_def)
    from limit_of_value_printable [OF this, of h] Some show ?thesis by auto
  qed
  show ?thesis
  proof (cases "map_of kvs (js ''limit'')")
    case None
    with b show ?thesis by (simp add: limit_from_object_Obj)
  next
    case (Some v)
    with assms(1) have "printable v" by (simp add: printable_at_def)
    then obtain t where "ToString h v = Some t" using ToString_printable [of h v] by blast
    with Some b show ?thesis
      by (cases v) (auto simp: limit_from_object_Obj Let_def)
  qed
qed

lemma normalize_args_Some_iff:
  "normalize_args h raw = Some q \<longleftrightarrow> (\<exists>e. extract_args h raw = Some e \<and> q = apply_defaults e)"
  by (auto simp: normalize_args_def split: option.splits)

lemma normalize_args_returns:
  assumes "\<And>kvs. raw = Obj kvs \<Longrightarrow> convertible kvs"
  shows "\<exists>q. normalize_args h raw = Some q"
proof (cases "\<exists>kvs. raw = Obj kvs")
  case True
  then obtain kvs where raw: "raw = Obj kvs" by blast
  with assms have c: "convertible kvs" by blast
  let ?q = "\<lparr>keyword = [], limit = DEFAULT_SEARCH_LIMIT, headless = DEFAULT_HEADLESS_MODE\<rparr>"
  from c obtain q1 where k: "keyword_from_object h (Obj kvs) ?q = Some q1"
    using keyword_from_object_convertible [of kvs h ?q] by (auto simp: convertible_def)
  from c obtain q2 where l: "limit_from_object h (Obj kvs) q1 = Some q2"
    using limit_from_object_convertible [of kvs h q1] by (auto simp: convertible_def)
  from k l show ?thesis
    by (simp add: raw normalize_args_def extract_args_Obj from_object_def)
next
  case False
  then have "\<exists>e. extract_args h raw = Some e"
    by (cases raw)
       (auto simp: extract_args_def Let_def from_object_def keyword_from_object_def
          limit_from_object_def limit_is_usable_def has_property_def get_property_def
          typeof_Str_not_object simp del: typeof.simps)
  then show ?thesis by (auto simp: normalize_args_def)
qed

lemma normalize_args_empty:
  "normalize_args h (Obj []) = Some \<lparr>keyword = js ''landscape'', limit = Fin 10, headless = True\<rparr>"
  "normalize_args h Undefined = Some \<lparr>keyword = js ''landscape'', limit = Fin 10, headless = True\<rparr>"
proof -
  have e1: "extract_args h (Obj []) = Some \<lparr>keyword = [], limit = Fin 10, headless = True\<rparr>"
    by (simp add: extract_args_Obj from_object_def keyword_from_object_Obj limit_from_object_Obj
        headless_from_object_Obj DEFAULT_SEARCH_LIMIT_def DEFAULT_HEADLESS_MODE_def)
  have e2: "extract_args h Undefined = Some \<lparr>keyword = [], limit = Fin 10, headless = True\<rparr>"
    by (simp add: extract_args_def DEFAULT_SEARCH_LIMIT_def DEFAULT_HEADLESS_MODE_def)
  show "normalize_args h (Obj []) = Some \<lparr>keyword = js ''landscape'', limit = Fin 10, headless = True\<rparr>"
    by (simp add: normalize_args_def e1 apply_defaults_def DEFAULT_SEARCH_KEYWORD_def
        DEFAULT_SEARCH_LIMIT_def isNaN_def le_zero_def)
  show "normalize_args h Undefined = Some \<lparr>keyword = js ''landscape'', limit = Fin 10, headless = True\<rparr>"
    by (simp add: normalize_args_def e2 apply_defaults_def DEFAULT_SEARCH_KEYWORD_def
        DEFAULT_SEARCH_LIMIT_def isNaN_def le_zero_def)
qed

text \<open>
  A mapping whose limit is an object with a key \<^verbatim>\<open>toString\<close>: \<^verbatim>\<open>String\<close> throws at line 173,
  there is no query, and the handler answers with the error's message.
\<close>

lemma unprintable_limit:
  "normalize_args h (Obj [(js ''keyword'', Str (js ''cats'')),
                          (js ''limit'', Obj [(js ''toString'', Null)])]) = None"
  "normalize_args h (Obj [(js ''limit'', Obj [(js ''toString'', Num (Fin 1))])]) = None"
  "normalize_args h (Obj [(js ''`headless`'', Str (js ''false'')),
                          (js ''limit'', Obj [(js ''toString'', Num (Fin 1))])]) = None"
proof -
  have d: "js ''limit'' \<noteq> js ''keyword''" "js ''limit'' \<noteq> js ''`keyword`''"
    "js ''limit'' \<noteq> js ''`headless`''" "js ''keyword'' \<noteq> js ''`keyword`''"
    "js ''`headless`'' \<noteq> js ''keyword''" "js ''`headless`'' \<noteq> js ''`keyword`''"
    by (simp_all add: js_def cu_def)
  show "normalize_args h (Obj [(js ''keyword'', Str (js ''cats'')),
                          (js ''limit'', Obj [(js ''toString'', Null)])]) = None"
    using d
    by (simp add: normalize_args_def extract_args_Obj from_object_def keyword_from_object_Obj
        limit_from_object_Obj)
  show "normalize_args h (Obj [(js ''limit'', Obj [(js ''toString'', Num (Fin 1))])]) = None"
    using d
    by (simp add: normalize_args_def extract_args_Obj from_object_def keyword_from_object_Obj
        limit_from_object_Obj)
  show "normalize_args h (Obj [(js ''`headless`'', Str (js ''false'')),
                          (js ''limit'', Obj [(js ''toString'', Num (Fin 1))])]) = None"
    using d
    by (simp add: normalize_args_def extract_args_Obj from_object_def keyword_from_object_Obj
        limit_from_object_Obj)
qed

subsection \<open>The limit\<close>

lemma limit_kept_or_default:
  assumes "normalize_args h raw = Some q"
  obtains e where "extract_args h raw = Some e"
    and "limit q = (if isNaN (limit e) \<or> le_zero (limit e) then Fin 10 else limit e)"
    and "keyword q = (if keyword e = [] then js ''landscape'' else keyword e)"
    and "headless q = headless e"
  using assms
  by (auto simp: normalize_args_Some_iff apply_defaults_simps DEFAULT_SEARCH_LIMIT_def
      DEFAULT_SEARCH_KEYWORD_def)

lemma limit_absent_unchanged:
  assumes "map_of kvs (js ''limit'') = None" and "map_of kvs (js ''`limit`'') = None"
  shows "limit_from_object h (Obj kvs) q = Some q"
  using assms by (simp add: limit_from_object_Obj)

lemma limit_unparsed_unchanged:
  assumes "map_of kvs (js ''limit'') = Some v" and "typeof v \<noteq> js ''number''"
    and "ToString h v = Some t" and "isNaN (parseInt t None)"
    and "map_of kvs (js ''`limit`'') = None"
  shows "limit_from_object h (Obj kvs) q = Some q"
  using assms
  by (cases v) (simp_all add: limit_from_object_Obj typeof_number del: ToString.simps)

lemma limit_default_of_object:
  assumes "normalize_args h (Obj kvs) = Some q"
    and "\<And>q1. limit_from_object h (Obj kvs) q1 = Some q1"
  shows "limit q = Fin 10"
proof -
  let ?q = "\<lparr>keyword = [], limit = DEFAULT_SEARCH_LIMIT, headless = DEFAULT_HEADLESS_MODE\<rparr>"
  from limit_kept_or_default [OF assms(1)] obtain e where
    e: "extract_args h (Obj kvs) = Some e"
    and l: "limit q = (if isNaN (limit e) \<or> le_zero (limit e) then Fin 10 else limit e)"
    by metis
  from e have f: "from_object h (Obj kvs) ?q = Some e" by (simp add: extract_args_Obj)
  then obtain q1 where k: "keyword_from_object h (Obj kvs) ?q = Some q1"
    by (rule from_objectE)
  from from_object_fields(2) [OF f k assms(2)] keyword_from_object_fields(1) [OF k]
  have "limit e = Fin 10" by (simp add: DEFAULT_SEARCH_LIMIT_def)
  with l show ?thesis by simp
qed

text \<open>
  Claim C3, as stated: the output limit is a positive integer for every raw input. Line 262
  asks for a number that is positive, and nothing rounds it: the limit 2.5 of a mapping is
  passed on as 2.5. And there are inputs with no output at all: for a mapping whose limit is
  an object with a key \<^verbatim>\<open>toString\<close>, as in \<^verbatim>\<open>{"keyword": "cats", "limit": {"toString": null}}\<close>,
  \<^verbatim>\<open>String\<close> throws at line 173 and the normalizer yields no query.
\<close>

theorem limit_not_integer:
  "normalize_args example_host (Obj [(js ''limit'', Num (Fin (5 / 2)))])
     = Some \<lparr>keyword = js ''landscape'', limit = Fin (5 / 2), headless = True\<rparr> \<and>
   \<not> positive_integer (Fin (5 / 2)) \<and>
   normalize_args example_host
     (Obj [(js ''keyword'', Str (js ''cats'')), (js ''limit'', Obj [(js ''toString'', Null)])]) = None"
proof -
  have "normalize_args example_host (Obj [(js ''limit'', Num (Fin (5 / 2)))])
     = Some \<lparr>keyword = js ''landscape'', limit = Fin (5 / 2), headless = True\<rparr>"
    by (simp add: normalize_args_def apply_defaults_def extract_args_Obj from_object_def
        keyword_from_object_Obj limit_from_object_Obj headless_from_object_Obj Let_def
        isNaN_def le_zero_def DEFAULT_SEARCH_KEYWORD_def DEFAULT_HEADLESS_MODE_def js_def cu_def)
  moreover have "\<not> positive_integer (Fin (5 / 2))"
  proof -
    have "\<lfloor>5 / 2 :: rat\<rfloor> = 2" by (simp add: floor_eq_iff)
    then show ?thesis by (simp add: positive_integer_def)
  qed
  ultimately show ?thesis by (simp add: unprintable_limit(1))
qed

text \<open>
  Claim C3, amended: for every raw input for which the normalizer yields a query, the output
  limit is a positive number (never not-a-number, zero or negative; it is the extracted number
  itself whenever that is positive, also when it has a fraction), and it equals 10 whenever
  the extracted limit is not-a-number, zero or negative, whenever the input is absent or a
  mapping without a limit under either spelling, and whenever a mapping holds under \<^verbatim>\<open>limit\<close> a
  value that is no number and does not parse as one (and no limit under the backtick
  spelling). The normalizer yields a query for every input that is no mapping, and for every
  mapping in which the values under \<^verbatim>\<open>limit\<close> and under the backtick spellings of \<^verbatim>\<open>keyword\<close> and
  \<^verbatim>\<open>limit\<close> can be printed by \<^verbatim>\<open>String\<close>; where \<^verbatim>\<open>String\<close> throws it yields none.
\<close>

theorem limit_always_positive:
  "(\<forall>q. normalize_args h raw = Some q \<longrightarrow>
      is_positive (limit q) \<and>
      (\<exists>e. extract_args h raw = Some e \<and>
           limit q = (if isNaN (limit e) \<or> le_zero (limit e) then Fin 10 else limit e)) \<and>
      (raw = Undefined \<or>
       (\<exists>kvs. raw = Obj kvs \<and> map_of kvs (js ''limit'') = None \<and> map_of kvs (js ''`limit`'') = None)
         \<longrightarrow> limit q = Fin 10) \<and>
      (\<forall>kvs v t. raw = Obj kvs \<and> map_of kvs (js ''limit'') = Some v \<and> typeof v \<noteq> js ''number'' \<and>
         ToString h v = Some t \<and> isNaN (parseInt t None) \<and> map_of kvs (js ''`limit`'') = None
         \<longrightarrow> limit q = Fin 10)) \<and>
   ((\<forall>kvs. raw = Obj kvs \<longrightarrow> convertible kvs) \<longrightarrow> (\<exists>q. normalize_args h raw = Some q))"
proof (intro conjI allI impI)
  fix q assume n: "normalize_args h raw = Some q"
  from limit_kept_or_default [OF n] obtain e where
    e: "extract_args h raw = Some e"
    and l: "limit q = (if isNaN (limit e) \<or> le_zero (limit e) then Fin 10 else limit e)"
    by metis
  show "is_positive (limit q)"
  proof (cases "isNaN (limit e) \<or> le_zero (limit e)")
    case True
    with l show ?thesis by (simp add: is_positive_def)
  next
    case False
    with l show ?thesis by (simp add: limit_positive_aux)
  qed
  from e l show "\<exists>e. extract_args h raw = Some e \<and>
      limit q = (if isNaN (limit e) \<or> le_zero (limit e) then Fin 10 else limit e)"
    by blast
  show "limit q = Fin 10"
    if "raw = Undefined \<or>
       (\<exists>kvs. raw = Obj kvs \<and> map_of kvs (js ''limit'') = None \<and> map_of kvs (js ''`limit`'') = None)"
    using that
  proof
    assume "raw = Undefined"
    with n show ?thesis by (auto simp: normalize_args_empty)
  next
    assume "\<exists>kvs. raw = Obj kvs \<and> map_of kvs (js ''limit'') = None \<and>
      map_of kvs (js ''`limit`'') = None"
    then obtain kvs where raw: "raw = Obj kvs" and a: "map_of kvs (js ''limit'') = None"
      "map_of kvs (js ''`limit`'') = None"
      by blast
    from n show ?thesis
      unfolding raw by (rule limit_default_of_object) (rule limit_absent_unchanged [OF a])
  qed
  show "limit q = Fin 10"
    if "raw = Obj kvs \<and> map_of kvs (js ''limit'') = Some v \<and> typeof v \<noteq> js ''number'' \<and>
         ToString h v = Some t \<and> isNaN (parseInt t None) \<and> map_of kvs (js ''`limit`'') = None"
    for kvs v t
  proof -
    from that have raw: "raw = Obj kvs" by simp
    from that have a: "map_of kvs (js ''limit'') = Some v" "typeof v \<noteq> js ''number''"
      "ToString h v = Some t" "isNaN (parseInt t None)" "map_of kvs (js ''`limit`'') = None"
      by simp_all
    from n show ?thesis
      unfolding raw by (rule limit_default_of_object) (rule limit_unparsed_unchanged [OF a])
  qed
next
  assume "\<forall>kvs. raw = Obj kvs \<longrightarrow> convertible kvs"
  then show "\<exists>q. normalize_args h raw = Some q"
    by (intro normalize_args_returns) blast
qed

text \<open>
  The limits -3, absent and \<^verbatim>\<open>"many"\<close> of a mapping all give 10; the limit 7 is kept. Each of
  the four mappings is convertible, and so is every mapping whose limit is a number, a string
  or an array of such.
\<close>

theorem limit_always_positive_witness:
  "normalize_args example_host (Obj [(js ''limit'', Num (Fin (- 3)))])
     = Some \<lparr>keyword = js ''landscape'', limit = Fin 10, headless = True\<rparr> \<and>
   is_positive (Fin 10) \<and>
   extract_args example_host (Obj [(js ''limit'', Num (Fin (- 3)))])
     = Some \<lparr>keyword = [], limit = Fin (- 3), headless = True\<rparr> \<and>
   le_zero (Fin (- 3)) \<and>
   normalize_args example_host (Obj [])
     = Some \<lparr>keyword = js ''landscape'', limit = Fin 10, headless = True\<rparr> \<and>
   ToString example_host (Str (js ''many'')) = Some (js ''many'') \<and>
   isNaN (parseInt (js ''many'') None) \<and>
   normalize_args example_host (Obj [(js ''limit'', Str (js ''many''))])
     = Some \<lparr>keyword = js ''landscape'', limit = Fin 10, headless = True\<rparr> \<and>
   normalize_args example_host (Obj [(js ''limit'', Num (Fin 7))])
     = Some \<lparr>keyword = js ''landscape'', limit = Fin 7, headless = True\<rparr> \<and>
   convertible [(js ''limit'', Arr [Str (js ''7''), Num (Fin 1)])] \<and>
   (\<exists>q. normalize_args example_host (Obj [(js ''limit'', Arr [Str (js ''7''), Num (Fin 1)])]) = Some q)"
proof -
  let ?neg = "Obj [(js ''limit'', Num (Fin (- 3)))]"
  let ?many = "Obj [(js ''limit'', Str (js ''many''))]"
  let ?seven = "Obj [(js ''limit'', Num (Fin 7))]"
  let ?arr = "Obj [(js ''limit'', Arr [Str (js ''7''), Num (Fin 1)])]"
  let ?d = "\<lparr>keyword = js ''landscape'', limit = Fin 10, headless = True\<rparr>"
  have d: "js ''limit'' \<noteq> js ''keyword''" "js ''limit'' \<noteq> js ''`keyword`''"
    "js ''limit'' \<noteq> js ''`limit`''" "js ''limit'' \<noteq> js ''headless''"
    "js ''limit'' \<noteq> js ''`headless`''"
    by (simp_all add: js_def cu_def)
  have defs: "DEFAULT_SEARCH_LIMIT = Fin 10" "DEFAULT_HEADLESS_MODE = True"
    "DEFAULT_SEARCH_KEYWORD = js ''landscape''"
    by (simp_all add: DEFAULT_SEARCH_LIMIT_def DEFAULT_HEADLESS_MODE_def DEFAULT_SEARCH_KEYWORD_def)
  have nan: "isNaN (parseInt (js ''many'') None)" by code_simp
  have le: "le_zero (Fin (- 3))" by (simp add: le_zero_def)
  have e_neg: "extract_args example_host ?neg = Some \<lparr>keyword = [], limit = Fin (- 3), headless = True\<rparr>"
    using d by (simp add: extract_args_Obj from_object_def keyword_from_object_Obj
        limit_from_object_Obj headless_from_object_Obj defs)
  have e_seven: "extract_args example_host ?seven = Some \<lparr>keyword = [], limit = Fin 7, headless = True\<rparr>"
    using d by (simp add: extract_args_Obj from_object_def keyword_from_object_Obj
        limit_from_object_Obj headless_from_object_Obj defs)
  have e_many: "extract_args example_host ?many = Some \<lparr>keyword = [], limit = Fin 10, headless = True\<rparr>"
    using d nan by (simp add: extract_args_Obj from_object_def keyword_from_object_Obj
        limit_from_object_Obj headless_from_object_Obj defs)
  have n_neg: "normalize_args example_host ?neg = Some ?d"
    by (simp add: normalize_args_def e_neg apply_defaults_def defs le isNaN_def)
  have n_many: "normalize_args example_host ?many = Some ?d"
    by (simp add: normalize_args_def e_many apply_defaults_def defs isNaN_def le_zero_def)
  have n_seven: "normalize_args example_host ?seven
      = Some \<lparr>keyword = js ''landscape'', limit = Fin 7, headless = True\<rparr>"
    by (simp add: normalize_args_def e_seven apply_defaults_def defs isNaN_def le_zero_def)
  have c: "convertible [(js ''limit'', Arr [Str (js ''7''), Num (Fin 1)])]"
    using d by (simp add: convertible_def printable_at_def)
  note neg = limit_always_positive [where h = example_host and raw = ?neg, THEN conjunct1,
      rule_format, OF n_neg]
  note many = limit_always_positive [where h = example_host and raw = ?many, THEN conjunct1,
      rule_format, OF n_many]
  note arr = limit_always_positive [where h = example_host and raw = ?arr, THEN conjunct2]
  have "is_positive (Fin 10)"
    using neg by simp
  moreover have "\<exists>q. normalize_args example_host ?arr = Some q"
    using arr c by simp
  moreover have "ToString example_host (Str (js ''many'')) = Some (js ''many'')" by simp
  ultimately show ?thesis
    using n_neg e_neg le n_many n_seven nan c normalize_args_empty(1) [of example_host]
    by blast
qed

subsection \<open>The keyword\<close>

lemma keyword_of_object:
  assumes "normalize_args h (Obj kvs) = Some q"
    and "\<And>q1. keyword_from_object h (Obj kvs)
           \<lparr>keyword = [], limit = DEFAULT_SEARCH_LIMIT, headless = DEFAULT_HEADLESS_MODE\<rparr> = Some q1
         \<Longrightarrow> keyword q1 = k"
  shows "keyword q = (if k = [] then js ''landscape'' else k)"
proof -
  let ?q = "\<lparr>keyword = [], limit = DEFAULT_SEARCH_LIMIT, headless = DEFAULT_HEADLESS_MODE\<rparr>"
  from limit_kept_or_default [OF assms(1)] obtain e where
    e: "extract_args h (Obj kvs) = Some e"
    and kq: "keyword q = (if keyword e = [] then js ''landscape'' else keyword e)"
    by metis
  from e have f: "from_object h (Obj kvs) ?q = Some e" by (simp add: extract_args_Obj)
  then obtain q1 q2 where k1: "keyword_from_object h (Obj kvs) ?q = Some q1"
    and l: "limit_from_object h (Obj kvs) q1 = Some q2"
    by (rule from_objectE)
  from assms(2) [OF k1] have "keyword q1 = k" .
  with from_object_fields(1) [OF f k1 l] kq show ?thesis by simp
qed


text \<open>
  Claim C4, as stated: for a mapping whose keyword is a string that is not empty, the output
  keyword is the trimmed string. A keyword of spaces only is not empty, its trimmed value is
  empty, and line 256 puts the default in its place. And a mapping with a good keyword may
  have no output at all: for \<^verbatim>\<open>{"keyword": "cats", "limit": {"toString": null}}\<close> line 165 takes
  the keyword, \<^verbatim>\<open>String\<close> throws at line 173, and the normalizer yields no query.
\<close>

theorem blank_keyword_gives_default:
  "js ''   '' \<noteq> [] \<and>
   trim (js ''   '') = [] \<and>
   normalize_args example_host (Obj [(js ''keyword'', Str (js ''   ''))])
     = Some \<lparr>keyword = js ''landscape'', limit = Fin 10, headless = True\<rparr> \<and>
   js ''landscape'' \<noteq> trim (js ''   '') \<and>
   normalize_args example_host
     (Obj [(js ''keyword'', Str (js ''cats'')), (js ''limit'', Obj [(js ''toString'', Null)])]) = None"
proof -
  have t: "trim (js ''   '') = []"
    by (simp add: trim_def js_def cu_def is_space_def)
  have d: "js ''keyword'' \<noteq> js ''limit''" "js ''keyword'' \<noteq> js ''`limit`''"
    "js ''keyword'' \<noteq> js ''headless''" "js ''keyword'' \<noteq> js ''`headless`''"
    "js ''keyword'' \<noteq> js ''`keyword`''"
    by (simp_all add: js_def cu_def)
  have k: "normalize_args example_host (Obj [(js ''keyword'', Str (js ''   ''))])
      = Some \<lparr>keyword = js ''landscape'', limit = Fin 10, headless = True\<rparr>"
    using d
    by (simp add: normalize_args_def apply_defaults_def extract_args_Obj from_object_def
        keyword_from_object_Obj limit_from_object_Obj headless_from_object_Obj t
        DEFAULT_SEARCH_KEYWORD_def DEFAULT_SEARCH_LIMIT_def DEFAULT_HEADLESS_MODE_def
        isNaN_def le_zero_def)
  have "js ''landscape'' \<noteq> []" "js ''   '' \<noteq> []" by (simp_all add: js_def)
  with t k show ?thesis by (simp add: unprintable_limit(1))
qed

text \<open>
  Claim C4, amended: for every mapping whose \<^verbatim>\<open>keyword\<close> field is a string that is not empty
  after trimming, every query that the normalizer yields has that string, with leading and
  trailing white space trimmed, as its keyword; and the normalizer yields a query whenever
  the values of the mapping under \<^verbatim>\<open>limit\<close> and under the backtick spelling of \<^verbatim>\<open>limit\<close> can be
  printed by \<^verbatim>\<open>String\<close> (where \<^verbatim>\<open>String\<close> throws it yields none).
\<close>

theorem keyword_trimmed:
  assumes "map_of kvs (js ''keyword'') = Some (Str s)" and "trim s \<noteq> []"
  shows "(\<forall>q. normalize_args h (Obj kvs) = Some q \<longrightarrow> keyword q = trim s) \<and>
         (printable_at kvs (js ''limit'') \<and> printable_at kvs (js ''`limit`'') \<longrightarrow>
            (\<exists>q. normalize_args h (Obj kvs) = Some q \<and> keyword q = trim s))"
proof -
  have k: "keyword_from_object h (Obj kvs) q0 = Some (q0\<lparr>keyword := trim s\<rparr>)" for q0
    using assms(1) by (simp add: keyword_from_object_Obj)
  have a: "keyword q = trim s" if "normalize_args h (Obj kvs) = Some q" for q
  proof -
    have "keyword q = (if trim s = [] then js ''landscape'' else trim s)"
      using that by (rule keyword_of_object) (simp add: k)
    with assms(2) show ?thesis by simp
  qed
  have b: "\<exists>q. normalize_args h (Obj kvs) = Some q"
    if "printable_at kvs (js ''limit'')" "printable_at kvs (js ''`limit`'')"
  proof -
    let ?q = "\<lparr>keyword = [], limit = DEFAULT_SEARCH_LIMIT, headless = DEFAULT_HEADLESS_MODE\<rparr>"
    from limit_from_object_convertible [OF that] obtain q2 where
      "limit_from_object h (Obj kvs) (?q\<lparr>keyword := trim s\<rparr>) = Some q2"
      by blast
    then show ?thesis
      by (simp add: normalize_args_def extract_args_Obj from_object_def k)
  qed
  from a b show ?thesis by blast
qed

theorem keyword_trimmed_witness:
  "trim (js ''  cats '') = js ''cats'' \<and>
   printable_at [(js ''keyword'', Str (js ''  cats ''))] (js ''limit'') \<and>
   printable_at [(js ''keyword'', Str (js ''  cats ''))] (js ''`limit`'') \<and>
   (\<exists>q. normalize_args example_host (Obj [(js ''keyword'', Str (js ''  cats ''))]) = Some q \<and>
        keyword q = js ''cats'')"
proof -
  have t: "trim (js ''  cats '') = js ''cats''"
    by (simp add: trim_def js_def cu_def is_space_def)
  have m: "map_of [(js ''keyword'', Str (js ''  cats ''))] (js ''keyword'') = Some (Str (js ''  cats ''))"
    by simp
  have ne: "trim (js ''  cats '') \<noteq> []" unfolding t by (simp add: js_def)
  have p: "printable_at [(js ''keyword'', Str (js ''  cats ''))] (js ''limit'')"
    "printable_at [(js ''keyword'', Str (js ''  cats ''))] (js ''`limit`'')"
    by (simp_all add: printable_at_def)
  from keyword_trimmed [OF m ne, of example_host, THEN conjunct2] p t show ?thesis by simp
qed




subsection \<open>The headless flag\<close>

lemma headless_of_object:
  assumes "normalize_args h (Obj kvs) = Some q"
  shows "headless q =
     headless (headless_from_object (Obj kvs)
       \<lparr>keyword = [], limit = DEFAULT_SEARCH_LIMIT, headless = DEFAULT_HEADLESS_MODE\<rparr>)"
proof -
  let ?q = "\<lparr>keyword = [], limit = DEFAULT_SEARCH_LIMIT, headless = DEFAULT_HEADLESS_MODE\<rparr>"
  from limit_kept_or_default [OF assms] obtain e where
    e: "extract_args h (Obj kvs) = Some e" and hq: "headless q = headless e"
    by metis
  from e have f: "from_object h (Obj kvs) ?q = Some e" by (simp add: extract_args_Obj)
  then obtain q1 q2 where k1: "keyword_from_object h (Obj kvs) ?q = Some q1"
    and l: "limit_from_object h (Obj kvs) q1 = Some q2"
    by (rule from_objectE)
  from from_object_fields(3) [OF f k1 l] hq show ?thesis by simp
qed

text \<open>
  Claim C10, as stated: every truthy value that is no boolean, the string \<^verbatim>\<open>"false"\<close> among
  them, gives true under the backtick spelling. Line 183 looks at the plain key first: in
  \<^verbatim>\<open>{"headless": false, "`headless`": "false"}\<close> the plain key holds a boolean, the value under
  the backtick spelling is never read, and the output is false. And where \<^verbatim>\<open>String\<close> throws
  at line 173, as for the limit \<^verbatim>\<open>{"toString": 1}\<close>, line 183 is not reached and there is no
  output.
\<close>

theorem backtick_headless_not_read:
  "ToBoolean (Str (js ''false'')) \<and>
   normalize_args example_host
     (Obj [(js ''headless'', Bool False), (js ''`headless`'', Str (js ''false''))])
     = Some \<lparr>keyword = js ''landscape'', limit = Fin 10, headless = False\<rparr> \<and>
   normalize_args example_host
     (Obj [(js ''`headless`'', Str (js ''false'')),
           (js ''limit'', Obj [(js ''toString'', Num (Fin 1))])]) = None"
proof -
  have tb: "ToBoolean (Str (js ''false''))" by (simp add: js_def)
  have d: "js ''headless'' \<noteq> js ''keyword''" "js ''headless'' \<noteq> js ''`keyword`''"
    "js ''headless'' \<noteq> js ''limit''" "js ''headless'' \<noteq> js ''`limit`''"
    "js ''`headless`'' \<noteq> js ''keyword''" "js ''`headless`'' \<noteq> js ''`keyword`''"
    "js ''`headless`'' \<noteq> js ''limit''" "js ''`headless`'' \<noteq> js ''`limit`''"
    by (simp_all add: js_def cu_def)
  have "normalize_args example_host
     (Obj [(js ''headless'', Bool False), (js ''`headless`'', Str (js ''false''))])
     = Some \<lparr>keyword = js ''landscape'', limit = Fin 10, headless = False\<rparr>"
    using d
    by (simp add: normalize_args_def apply_defaults_def extract_args_Obj from_object_def
        keyword_from_object_Obj limit_from_object_Obj headless_from_object_Obj
        DEFAULT_SEARCH_KEYWORD_def DEFAULT_SEARCH_LIMIT_def isNaN_def le_zero_def)
  with tb show ?thesis by (simp add: unprintable_limit(3))
qed

text \<open>
  Claim C10, amended: where a mapping brings the headless field under the backtick spelling
  and no boolean under the plain key, every query that the normalizer yields has as headless
  the truth value of whatever stands under the backtick spelling, so every truthy value, the
  string \<^verbatim>\<open>"false"\<close> among them, gives true. Where it brings under the plain key a value that is
  no boolean and nothing under the backtick spelling, that value is ignored and headless is
  the default, true. The normalizer yields a query whenever the mapping is convertible (where
  \<^verbatim>\<open>String\<close> throws it yields none).
\<close>

theorem headless_coercion:
  "(\<forall>q. normalize_args h (Obj kvs) = Some q \<and>
        map_of kvs (js ''`headless`'') = Some v \<and> (\<forall>b. map_of kvs (js ''headless'') \<noteq> Some (Bool b))
      \<longrightarrow> headless q = ToBoolean v) \<and>
   (\<forall>q. normalize_args h (Obj kvs) = Some q \<and>
        map_of kvs (js ''headless'') = Some v \<and> (\<forall>b. v \<noteq> Bool b) \<and>
        map_of kvs (js ''`headless`'') = None
      \<longrightarrow> headless q = True) \<and>
   (convertible kvs \<longrightarrow> (\<exists>q. normalize_args h (Obj kvs) = Some q))"
proof (intro conjI allI impI)
  fix q
  assume a: "normalize_args h (Obj kvs) = Some q \<and>
        map_of kvs (js ''`headless`'') = Some v \<and> (\<forall>b. map_of kvs (js ''headless'') \<noteq> Some (Bool b))"
  then have "normalize_args h (Obj kvs) = Some q" by blast
  from headless_of_object [OF this] a show "headless q = ToBoolean v"
    by (auto simp: headless_from_object_Obj split: option.splits jsval.splits)
next
  fix q
  assume a: "normalize_args h (Obj kvs) = Some q \<and>
        map_of kvs (js ''headless'') = Some v \<and> (\<forall>b. v \<noteq> Bool b) \<and>
        map_of kvs (js ''`headless`'') = None"
  then have "normalize_args h (Obj kvs) = Some q" by blast
  from headless_of_object [OF this] a show "headless q = True"
    by (auto simp: headless_from_object_Obj DEFAULT_HEADLESS_MODE_def
        split: option.splits jsval.splits)
next
  assume "convertible kvs"
  then show "\<exists>q. normalize_args h (Obj kvs) = Some q"
    by (intro normalize_args_returns) auto
qed

text \<open>
  The string \<^verbatim>\<open>"false"\<close> under the backtick spelling gives true, the number 0 there gives
  false, and the string \<^verbatim>\<open>"false"\<close> under the plain key gives the default.
\<close>

theorem headless_coercion_witness:
  "ToBoolean (Str (js ''false'')) \<and>
   convertible [(js ''`headless`'', Str (js ''false''))] \<and>
   (\<exists>q. normalize_args example_host (Obj [(js ''`headless`'', Str (js ''false''))]) = Some q \<and>
        headless q = True) \<and>
   convertible [(js ''`headless`'', Num (Fin 0))] \<and>
   (\<exists>q. normalize_args example_host (Obj [(js ''`headless`'', Num (Fin 0))]) = Some q \<and>
        headless q = False) \<and>
   convertible [(js ''headless'', Str (js ''false''))] \<and>
   (\<exists>q. normalize_args example_host (Obj [(js ''headless'', Str (js ''false''))]) = Some q \<and>
        headless q = True)"
proof -
  let ?a = "[(js ''`headless`'', Str (js ''false''))]"
  let ?b = "[(js ''`headless`'', Num (Fin 0))]"
  let ?c = "[(js ''headless'', Str (js ''false''))]"
  have tb: "ToBoolean (Str (js ''false''))" by (simp add: js_def)
  have d: "js ''headless'' \<noteq> js ''`keyword`''" "js ''headless'' \<noteq> js ''limit''"
    "js ''headless'' \<noteq> js ''`limit`''" "js ''`headless`'' \<noteq> js ''`keyword`''"
    "js ''`headless`'' \<noteq> js ''limit''" "js ''`headless`'' \<noteq> js ''`limit`''"
    "js ''headless'' \<noteq> js ''`headless`''"
    by (simp_all add: js_def cu_def)
  have c: "convertible ?a" "convertible ?b" "convertible ?c"
    using d by (simp_all add: convertible_def printable_at_def)
  from headless_coercion [where kvs = ?a and h = example_host, THEN conjunct2, THEN conjunct2] c(1)
  obtain qa where qa: "normalize_args example_host (Obj ?a) = Some qa" by blast
  from headless_coercion [where kvs = ?b and h = example_host, THEN conjunct2, THEN conjunct2] c(2)
  obtain qb where qb: "normalize_args example_host (Obj ?b) = Some qb" by blast
  from headless_coercion [where kvs = ?c and h = example_host, THEN conjunct2, THEN conjunct2] c(3)
  obtain qc where qc: "normalize_args example_host (Obj ?c) = Some qc" by blast
  have "headless qa = ToBoolean (Str (js ''false''))"
    by (rule headless_coercion [where kvs = ?a and h = example_host, THEN conjunct1, rule_format])
       (use d in \<open>simp add: qa\<close>)
  moreover have "headless qb = ToBoolean (Num (Fin 0))"
    by (rule headless_coercion [where kvs = ?b and h = example_host, THEN conjunct1, rule_format])
       (use d in \<open>simp add: qb\<close>)
  moreover have "headless qc = True"
    by (rule headless_coercion [where kvs = ?c and h = example_host
          and v = "Str (js ''false'')", THEN conjunct2, THEN conjunct1, rule_format])
       (use d in \<open>simp add: qc\<close>)
  ultimately have "headless qa = True" "headless qb = False" "headless qc = True"
    using tb by (simp_all add: isNaN_def)
  with qa qb qc tb c show ?thesis by blast
qed

subsection \<open>The example with backticks\<close>

lemma normalize_args_Str:
  "normalize_args h (Str s) =
     (let args = replace_all backtick_re (\<lambda>caps. js ''\"'') s;
          q = \<lparr>keyword = [], limit = DEFAULT_SEARCH_LIMIT, headless = DEFAULT_HEADLESS_MODE\<rparr>
      in Some (apply_defaults (if args = [] then q else from_string args q)))"
  by (simp add: normalize_args_def extract_args_def Let_def typeof_Str_not_object
      del: typeof.simps)

lemma backtick_example_steps:
  "replace_all backtick_re (\<lambda>caps. js ''\"'') (js ''`keyword`: `sunset`, `limit`: 5'')
     = js ''\"keyword\": \"sunset\", \"limit\": 5''"
  "JSON_parse (js ''\"keyword\": \"sunset\", \"limit\": 5'') = None"
  "fixedJson (js ''\"keyword\": \"sunset\", \"limit\": 5'') = js ''\"keyword\": \"sunset\", \"limit\": 5''"
  "rsearch keyword_re (js ''\"keyword\": \"sunset\", \"limit\": 5'')
     = Some ([], [js ''sunset''], js '', \"limit\": 5'')"
  "rsearch limit_re (js ''\"keyword\": \"sunset\", \"limit\": 5'')
     = Some (js ''\"keyword\": \"sunset\", '', [js ''5''], [])"
  "parseInt (js ''5'') (Some 10) = Fin 5"
  "trim (js ''sunset'') = js ''sunset''"
  by code_simp+

lemma backtick_json_steps:
  "replace_all backtick_re (\<lambda>caps. js ''\"'') (js ''{`keyword`: `sunset`, `headless`: false}'')
     = js ''{\"keyword\": \"sunset\", \"headless\": false}''"
  "JSON_parse (js ''{\"keyword\": \"sunset\", \"headless\": false}'')
     = Some (Obj [(js ''headless'', Bool False), (js ''keyword'', Str (js ''sunset''))])"
  "JSON_parse (js ''{`keyword`: `sunset`, `headless`: false}'') = None"
  "JSON_parse (fixedJson (js ''{`keyword`: `sunset`, `headless`: false}'')) = None"
  by code_simp+

text \<open>
  Claim C8. The normalizer first replaces every backtick of a text by a double quote: what it
  yields for a text is what the parse with its fallbacks yields for the text with the
  backticks replaced (and the defaults, when nothing is left of the text). For the text
  \<^verbatim>\<open>`keyword`: `sunset`, `limit`: 5\<close> the text with the backticks replaced is
  \<^verbatim>\<open>"keyword": "sunset", "limit": 5\<close>; it is no JSON, the repair leaves it as it is, so the
  second parse fails as well; the two patterns then find \<^verbatim>\<open>sunset\<close> and \<^verbatim>\<open>5\<close>, and the output is
  the keyword \<^verbatim>\<open>sunset\<close>, the limit 5 and headless true. That the replacement comes first shows
  in the output for \<^verbatim>\<open>{`keyword`: `sunset`, `headless`: false}\<close>: only the text with double
  quotes is JSON, and only the parsed value brings headless false.
\<close>

theorem backtick_example:
  "(\<forall>s. normalize_args h (Str s) =
      (let args = replace_all backtick_re (\<lambda>caps. js ''\"'') s;
           q = \<lparr>keyword = [], limit = DEFAULT_SEARCH_LIMIT, headless = DEFAULT_HEADLESS_MODE\<rparr>
       in Some (apply_defaults (if args = [] then q else from_string args q)))) \<and>
   replace_all backtick_re (\<lambda>caps. js ''\"'') (js ''`keyword`: `sunset`, `limit`: 5'')
     = js ''\"keyword\": \"sunset\", \"limit\": 5'' \<and>
   JSON_parse (js ''\"keyword\": \"sunset\", \"limit\": 5'') = None \<and>
   JSON_parse (fixedJson (js ''\"keyword\": \"sunset\", \"limit\": 5'')) = None \<and>
   from_string (js ''\"keyword\": \"sunset\", \"limit\": 5'')
       \<lparr>keyword = [], limit = DEFAULT_SEARCH_LIMIT, headless = DEFAULT_HEADLESS_MODE\<rparr>
     = \<lparr>keyword = js ''sunset'', limit = Fin 5, headless = True\<rparr> \<and>
   normalize_args h (Str (js ''`keyword`: `sunset`, `limit`: 5''))
     = Some \<lparr>keyword = js ''sunset'', limit = Fin 5, headless = True\<rparr> \<and>
   JSON_parse (js ''{`keyword`: `sunset`, `headless`: false}'') = None \<and>
   JSON_parse (fixedJson (js ''{`keyword`: `sunset`, `headless`: false}'')) = None \<and>
   normalize_args h (Str (js ''{`keyword`: `sunset`, `headless`: false}''))
     = Some \<lparr>keyword = js ''sunset'', limit = Fin 10, headless = False\<rparr>"
proof -
  note s = backtick_example_steps
  note j = backtick_json_steps
  let ?q = "\<lparr>keyword = [], limit = DEFAULT_SEARCH_LIMIT, headless = DEFAULT_HEADLESS_MODE\<rparr>"
  have ne: "js ''sunset'' \<noteq> []" "js ''5'' \<noteq> []"
    "js ''\"keyword\": \"sunset\", \"limit\": 5'' \<noteq> []"
    "js ''{\"keyword\": \"sunset\", \"headless\": false}'' \<noteq> []"
    and d: "\<not> isNaN (Fin 5)" "\<not> le_zero (Fin 5)" "\<not> isNaN (Fin 10)" "\<not> le_zero (Fin 10)"
    and k: "js ''headless'' \<noteq> js ''keyword''" "js ''limit'' \<noteq> js ''keyword''"
      "js ''limit'' \<noteq> js ''headless''"
    by (simp_all add: js_def cu_def isNaN_def le_zero_def)
  have fs: "from_string (js ''\"keyword\": \"sunset\", \"limit\": 5'') ?q
          = \<lparr>keyword = js ''sunset'', limit = Fin 5, headless = True\<rparr>"
    by (simp add: Let_def s from_string_def from_regex_def capture1_def ne
        DEFAULT_HEADLESS_MODE_def)
  have fj: "from_string (js ''{\"keyword\": \"sunset\", \"headless\": false}'') ?q
          = \<lparr>keyword = js ''sunset'', limit = Fin 10, headless = False\<rparr>"
    using k
    by (simp add: Let_def j s(7) from_string_def from_parsed_def get_property_def ne
        DEFAULT_SEARCH_LIMIT_def)
  have n1: "normalize_args h (Str (js ''`keyword`: `sunset`, `limit`: 5''))
      = Some \<lparr>keyword = js ''sunset'', limit = Fin 5, headless = True\<rparr>"
    by (simp add: normalize_args_Str Let_def s(1) ne fs apply_defaults_def d)
  have n2: "normalize_args h (Str (js ''{`keyword`: `sunset`, `headless`: false}''))
      = Some \<lparr>keyword = js ''sunset'', limit = Fin 10, headless = False\<rparr>"
    by (simp add: normalize_args_Str Let_def j(1) ne fj apply_defaults_def d)
  have all: "\<forall>s. normalize_args h (Str s) =
      (let args = replace_all backtick_re (\<lambda>caps. js ''\"'') s;
           q = \<lparr>keyword = [], limit = DEFAULT_SEARCH_LIMIT, headless = DEFAULT_HEADLESS_MODE\<rparr>
       in Some (apply_defaults (if args = [] then q else from_string args q)))"
    by (intro allI normalize_args_Str)
  from s(3) have f2: "JSON_parse (fixedJson (js ''\"keyword\": \"sunset\", \"limit\": 5'')) = None"
    by (simp add: s(2))
  show ?thesis
    by (intro conjI all s(1) s(2) f2 fs n1 j(3) j(4) n2)
qed

theorem backtick_example_witness:
  "normalize_args example_host (Str (js ''`keyword`: `sunset`, `limit`: 5''))
     = Some \<lparr>keyword = js ''sunset'', limit = Fin 5, headless = True\<rparr>"
  by (rule backtick_example [where h = example_host, THEN conjunct2, THEN conjunct2,
        THEN conjunct2, THEN conjunct2, THEN conjunct2, THEN conjunct1])

section \<open>The search handler and the dispatcher\<close>

lemma digits_of_0: "digits_of 0 = js ''0''"
  by (simp add: digits_of.simps [of 0] js_def cu_def)

lemma summary_item_0:
  "summary_item 0 kw = text_item (js ''Found 0 images related to \"'' @ kw @ js ''\" on Pinterest'')"
  by (simp add: summary_item_def digits_of_0 js_def)

lemma handlePinterestSearch_empty:
  assumes "normalize_args h args = Some q"
    and "validResults_of (scraper_search h (keyword q) (limit q) (headless q)) = []"
  shows "handlePinterestSearch h args =
        \<lparr>content = [text_item (js ''Found 0 images related to \"'' @ keyword q
                                 @ js ''\" on Pinterest'')]\<rparr>"
  using assms
  by (simp add: handlePinterestSearch_def Let_def sanitize_def build_content_def summary_item_0)

lemma handlePinterestSearch_error:
  assumes "normalize_args h args = None"
  shows "handlePinterestSearch h args =
        \<lparr>content = [text_item (js ''Error during search: '' @ conversion_error_message h)]\<rparr>"
  using assms by (simp add: handlePinterestSearch_def)

text \<open>
  Claim C5, as stated: with empty arguments and a scraper that returns nothing, the text of
  the summary is \<^verbatim>\<open>Found 0 images related to "landscape"\<close>. The template of line 314 goes on
  after the keyword: the text ends in \<^verbatim>\<open>on Pinterest\<close>. And not every call gets a summary:
  for the arguments \<^verbatim>\<open>{"limit": {"toString": 1}}\<close> \<^verbatim>\<open>String\<close> throws at line 173, the \<^verbatim>\<open>catch\<close> of
  line 351 answers with the error's message, and the scraper is not called.
\<close>

theorem empty_summary_text:
  "map item_text (content (handlePinterestSearch example_host (Obj [])))
     = [js ''Found 0 images related to \"landscape\" on Pinterest''] \<and>
   map item_text (content (handlePinterestSearch example_host (Obj [])))
     \<noteq> [js ''Found 0 images related to \"landscape\"''] \<and>
   map item_text (content (handlePinterestSearch example_host
       (Obj [(js ''limit'', Obj [(js ''toString'', Num (Fin 1))])])))
     = [js ''Error during search: Cannot convert object to primitive value'']"
proof -
  let ?q = "\<lparr>keyword = js ''landscape'', limit = Fin 10, headless = True\<rparr>"
  have v: "validResults_of (scraper_search example_host (keyword ?q) (limit ?q) (headless ?q)) = []"
    by (simp add: example_host_def validResults_of_def)
  have "map item_text (content (handlePinterestSearch example_host (Obj [])))
     = [js ''Found 0 images related to \"'' @ js ''landscape'' @ js ''\" on Pinterest'']"
    by (simp add: handlePinterestSearch_empty [OF normalize_args_empty(1) v] text_item_def)
  moreover have "js ''Found 0 images related to \"'' @ js ''landscape'' @ js ''\" on Pinterest''
      = js ''Found 0 images related to \"landscape\" on Pinterest''"
    by (simp add: js_def)
  moreover have "js ''Found 0 images related to \"landscape\" on Pinterest''
      \<noteq> js ''Found 0 images related to \"landscape\"''"
    by (simp add: js_def)
  moreover have "map item_text (content (handlePinterestSearch example_host
       (Obj [(js ''limit'', Obj [(js ''toString'', Num (Fin 1))])])))
     = [js ''Error during search: '' @ js ''Cannot convert object to primitive value'']"
    by (simp add: handlePinterestSearch_error [OF unprintable_limit(2)] text_item_def
        example_host_def)
  moreover have "js ''Error during search: '' @ js ''Cannot convert object to primitive value''
      = js ''Error during search: Cannot convert object to primitive value''"
    by (simp add: js_def)
  ultimately show ?thesis by simp
qed

text \<open>
  Claim C5, amended: for every call whose arguments the normalizer turns into a query,
  whenever the scraper throws or returns something that is no sequence, the handler goes on
  with the empty result set and returns a response whose only block is the summary, which
  starts with the count 0, names the keyword and ends in \<^verbatim>\<open>on Pinterest\<close>; with empty arguments
  (an empty mapping, or none) and a scraper that throws, returns no sequence or returns the
  empty sequence, the text of the summary is
  \<^verbatim>\<open>Found 0 images related to "landscape" on Pinterest\<close>. The normalizer yields a query for
  every input that is no mapping and for every convertible mapping; where it yields none
  (\<^verbatim>\<open>String\<close> throws), the scraper is not called and the only block of the response is
  \<^verbatim>\<open>Error during search:\<close> with the error's message.
\<close>

theorem search_survives_scraper_failure:
  "(\<forall>q. normalize_args h args = Some q \<and>
        scraper_search h (keyword q) (limit q) (headless q) \<in> {Raised, NonSequence} \<longrightarrow>
      handlePinterestSearch h args =
        \<lparr>content = [text_item (js ''Found 0 images related to \"'' @ keyword q
                                 @ js ''\" on Pinterest'')]\<rparr>) \<and>
   (scraper_search h (js ''landscape'') (Fin 10) True \<in> {Raised, NonSequence, Sequence []} \<and>
      (args = Obj [] \<or> args = Undefined) \<longrightarrow>
      handlePinterestSearch h args =
        \<lparr>content = [text_item (js ''Found 0 images related to \"landscape\" on Pinterest'')]\<rparr>) \<and>
   ((\<forall>kvs. args = Obj kvs \<longrightarrow> convertible kvs) \<longrightarrow> (\<exists>q. normalize_args h args = Some q)) \<and>
   (normalize_args h args = None \<longrightarrow>
      handlePinterestSearch h args =
        \<lparr>content = [text_item (js ''Error during search: '' @ conversion_error_message h)]\<rparr>)"
proof (intro conjI allI impI)
  fix q
  assume a: "normalize_args h args = Some q \<and>
        scraper_search h (keyword q) (limit q) (headless q) \<in> {Raised, NonSequence}"
  then have n: "normalize_args h args = Some q" by blast
  from a have "validResults_of (scraper_search h (keyword q) (limit q) (headless q)) = []"
    by (auto simp: validResults_of_def)
  with n show "handlePinterestSearch h args =
        \<lparr>content = [text_item (js ''Found 0 images related to \"'' @ keyword q
                                 @ js ''\" on Pinterest'')]\<rparr>"
    by (rule handlePinterestSearch_empty)
next
  let ?q = "\<lparr>keyword = js ''landscape'', limit = Fin 10, headless = True\<rparr>"
  assume a: "scraper_search h (js ''landscape'') (Fin 10) True \<in> {Raised, NonSequence, Sequence []} \<and>
      (args = Obj [] \<or> args = Undefined)"
  then have q: "normalize_args h args = Some ?q"
    by (auto simp: normalize_args_empty)
  from a have "validResults_of (scraper_search h (keyword ?q) (limit ?q) (headless ?q)) = []"
    by (auto simp: validResults_of_def)
  from handlePinterestSearch_empty [OF q this] have
    "handlePinterestSearch h args =
        \<lparr>content = [text_item (js ''Found 0 images related to \"'' @ js ''landscape''
                                 @ js ''\" on Pinterest'')]\<rparr>"
    by simp
  moreover have "js ''Found 0 images related to \"'' @ js ''landscape'' @ js ''\" on Pinterest''
      = js ''Found 0 images related to \"landscape\" on Pinterest''"
    by (simp add: js_def)
  ultimately show "handlePinterestSearch h args =
        \<lparr>content = [text_item (js ''Found 0 images related to \"landscape\" on Pinterest'')]\<rparr>"
    by simp
next
  assume "\<forall>kvs. args = Obj kvs \<longrightarrow> convertible kvs"
  then show "\<exists>q. normalize_args h args = Some q"
    by (intro normalize_args_returns) blast
next
  assume "normalize_args h args = None"
  then show "handlePinterestSearch h args =
        \<lparr>content = [text_item (js ''Error during search: '' @ conversion_error_message h)]\<rparr>"
    by (rule handlePinterestSearch_error)
qed

theorem search_survives_scraper_failure_witness:
  "scraper_search example_host (js ''landscape'') (Fin 10) True = NonSequence \<and>
   handlePinterestSearch example_host (Obj []) =
     \<lparr>content = [text_item (js ''Found 0 images related to \"landscape\" on Pinterest'')]\<rparr> \<and>
   normalize_args example_host (Obj [(js ''keyword'', Str (js ''cats''))])
     = Some \<lparr>keyword = js ''cats'', limit = Fin 10, headless = True\<rparr> \<and>
   scraper_search example_host (js ''cats'') (Fin 10) True = NonSequence \<and>
   handlePinterestSearch example_host (Obj [(js ''keyword'', Str (js ''cats''))]) =
     \<lparr>content = [text_item (js ''Found 0 images related to \"cats\" on Pinterest'')]\<rparr> \<and>
   normalize_args example_host (Obj [(js ''limit'', Obj [(js ''toString'', Num (Fin 1))])]) = None \<and>
   handlePinterestSearch example_host (Obj [(js ''limit'', Obj [(js ''toString'', Num (Fin 1))])]) =
     \<lparr>content = [text_item (js ''Error during search: Cannot convert object to primitive value'')]\<rparr>"
proof -
  let ?cats = "Obj [(js ''keyword'', Str (js ''cats''))]"
  let ?bad = "Obj [(js ''limit'', Obj [(js ''toString'', Num (Fin 1))])]"
  let ?q = "\<lparr>keyword = js ''cats'', limit = Fin 10, headless = True\<rparr>"
  have s: "scraper_search example_host (js ''landscape'') (Fin 10) True = NonSequence"
    "scraper_search example_host (js ''cats'') (Fin 10) True = NonSequence"
    by (simp_all add: example_host_def)
  have d: "js ''keyword'' \<noteq> js ''limit''" "js ''keyword'' \<noteq> js ''`limit`''"
    "js ''keyword'' \<noteq> js ''headless''" "js ''keyword'' \<noteq> js ''`headless`''"
    "js ''cats'' \<noteq> []"
    by (simp_all add: js_def cu_def)
  have t: "trim (js ''cats'') = js ''cats''"
    by (simp add: trim_def js_def cu_def is_space_def)
  have n: "normalize_args example_host ?cats = Some ?q"
    using d
    by (simp add: normalize_args_def apply_defaults_def extract_args_Obj from_object_def
        keyword_from_object_Obj limit_from_object_Obj headless_from_object_Obj t
        DEFAULT_SEARCH_LIMIT_def DEFAULT_HEADLESS_MODE_def isNaN_def le_zero_def)
  have b: "normalize_args example_host ?bad = None"
    by (rule unprintable_limit(2))
  have "handlePinterestSearch example_host (Obj []) =
     \<lparr>content = [text_item (js ''Found 0 images related to \"landscape\" on Pinterest'')]\<rparr>"
    using search_survives_scraper_failure [where h = example_host and args = "Obj []",
        THEN conjunct2, THEN conjunct1] s(1)
    by simp
  moreover have "handlePinterestSearch example_host ?cats =
     \<lparr>content = [text_item (js ''Found 0 images related to \"'' @ keyword ?q
                                 @ js ''\" on Pinterest'')]\<rparr>"
    by (rule search_survives_scraper_failure [where h = example_host and args = ?cats,
          THEN conjunct1, rule_format])
       (simp add: n s(2))
  then have "handlePinterestSearch example_host ?cats =
     \<lparr>content = [text_item (js ''Found 0 images related to \"cats\" on Pinterest'')]\<rparr>"
    by (simp add: js_def)
  moreover have "handlePinterestSearch example_host ?bad =
     \<lparr>content = [text_item (js ''Error during search: '' @
        conversion_error_message example_host)]\<rparr>"
    using search_survives_scraper_failure [where h = example_host and args = ?bad,
        THEN conjunct2, THEN conjunct2, THEN conjunct2] b
    by blast
  then have "handlePinterestSearch example_host ?bad =
     \<lparr>content = [text_item (js ''Error during search: Cannot convert object to primitive value'')]\<rparr>"
    by (simp add: example_host_def js_def)
  ultimately show ?thesis using s n b by (intro conjI)
qed

text \<open>
  Claim C1 says that a tool name other than the two known ones surfaces as a method-not-found
  error. The \<^verbatim>\<open>switch\<close> of line 124 does throw that error, but it stands inside the \<^verbatim>\<open>try\<close> of
  line 114, whose \<^verbatim>\<open>catch\<close> throws every error again as an internal error. What the caller
  gets is the internal error, with the message of the first one quoted in its own; no content
  is returned.
\<close>

theorem unknown_tool_internal_error:
  assumes "name \<noteq> js ''pinterest_search''" and "name \<noteq> js ''pinterest_get_image_info''"
  shows "call_tool h name args arguments =
           Inl \<lparr>code = InternalError,
                message = McpError_message h InternalError
                  (js ''Tool call failed: '' @
                   McpError_message h MethodNotFound (js ''Unknown tool: '' @ name))\<rparr>"
  using assms by (simp add: call_tool_def switch_tool_def new_McpError_def)

theorem unknown_tool_internal_error_witness:
  "js ''unknown_tool'' \<noteq> js ''pinterest_search'' \<and>
   js ''unknown_tool'' \<noteq> js ''pinterest_get_image_info'' \<and>
   call_tool example_host (js ''unknown_tool'') Undefined (Obj []) =
     Inl \<lparr>code = InternalError,
          message = js ''MCP error -32603: Tool call failed: MCP error -32601: Unknown tool: unknown_tool''\<rparr>"
proof -
  have n: "js ''unknown_tool'' \<noteq> js ''pinterest_search''"
    "js ''unknown_tool'' \<noteq> js ''pinterest_get_image_info''"
    by (simp_all add: js_def cu_def)
  have m: "McpError_message example_host InternalError
             (js ''Tool call failed: '' @
              McpError_message example_host MethodNotFound (js ''Unknown tool: '' @ js ''unknown_tool''))
           = js ''MCP error -32603: Tool call failed: MCP error -32601: Unknown tool: unknown_tool''"
    by (simp add: example_host_def js_def)
  from unknown_tool_internal_error [OF n, where h = example_host and args = Undefined
      and arguments = "Obj []"] m n
  show ?thesis by simp
qed

end
